theory Spec2Isabelle
  imports Main "HOL-Library.Word" "HOL-Library.Signed_Division" "HOL-Library.Monad_Syntax"
    "HOL-Library.Char_ord" "HOL-Library.List_Lexorder"
begin

section \<open>Data model\<close>

text \<open>
  The grid is a \<^verbatim>\<open>std::vector<std::vector<int>>\<close>: a list of rows of 32-bit
  integers. Rows need not have the same length. Indices are \<^verbatim>\<open>size_t\<close> values;
  they are natural numbers here and become 64-bit words where the code computes with them.
\<close>

type_synonym int32 = "32 word"
type_synonym size_t = "64 word"
type_synonym Uint8 = "8 word"
type_synonym grid = "int32 list list"

record SDL_Rect =
  rect_x :: int32
  rect_y :: int32
  rect_w :: int32
  rect_h :: int32

text \<open>The calls into the graphics library, in the order they are issued.\<close>

datatype sdl_call =
    SDL_Init
  | SDL_CreateWindow int32 int32
  | SDL_CreateRenderer
  | SDL_SetRenderDrawColor Uint8 Uint8 Uint8 Uint8
  | SDL_RenderClear
  | SDL_RenderDrawLine int32 int32 int32 int32
  | SDL_RenderFillRect SDL_Rect
  | SDL_RenderPresent
  | SDL_Delay int32
  | SDL_DestroyRenderer
  | SDL_DestroyWindow
  | SDL_Quit

section \<open>SdlScreen::render\<close>

text \<open>
  \<^verbatim>\<open>rect.x = col * cellSize\<close> with \<^verbatim>\<open>size_t col\<close> and \<^verbatim>\<open>int cellSize\<close>:
  the int is converted to \<^verbatim>\<open>size_t\<close>, the product is taken modulo \<open>2^64\<close>, and the
  assignment to the \<^verbatim>\<open>int\<close> field keeps the low 32 bits.
\<close>

definition scale :: "nat \<Rightarrow> int32 \<Rightarrow> int32" where
  "scale idx cellSize = ucast ((of_nat idx :: size_t) * (scast cellSize :: size_t))"

text \<open>The body of the inner loop, for the cell at \<open>(row, col)\<close> holding \<open>v\<close>.\<close>

definition render_cell :: "int32 \<Rightarrow> nat \<Rightarrow> nat \<Rightarrow> int32 \<Rightarrow> sdl_call list" where
  "render_cell cellSize row col v =
     (if v = 1 then
        (let rect = \<lparr>rect_x = scale col cellSize, rect_y = scale row cellSize,
                     rect_w = cellSize, rect_h = cellSize\<rparr>
         in (if v = 1
             then [SDL_SetRenderDrawColor 255 255 255 255]
             else [SDL_SetRenderDrawColor 50 50 50 255])
            @ [SDL_RenderFillRect rect])
      else [])"

text \<open>The inner loop, over the columns of one row, from column \<open>col\<close> on.\<close>

function render_cols :: "int32 \<Rightarrow> int32 list \<Rightarrow> nat \<Rightarrow> nat \<Rightarrow> sdl_call list" where
  "render_cols cellSize r row col =
     (if col < length r
      then render_cell cellSize row col (r ! col) @ render_cols cellSize r row (Suc col)
      else [])"
  by pat_completeness auto
termination
  by (relation "measure (\<lambda>(cellSize, r, row, col). length r - col)") auto

text \<open>The outer loop, over the rows, from row \<open>row\<close> on.\<close>

function render_rows :: "int32 \<Rightarrow> grid \<Rightarrow> nat \<Rightarrow> sdl_call list" where
  "render_rows cellSize g row =
     (if row < length g
      then render_cols cellSize (g ! row) row 0 @ render_rows cellSize g (Suc row)
      else [])"
  by pat_completeness auto
termination
  by (relation "measure (\<lambda>(cellSize, g, row). length g - row)") auto

text \<open>
  \<^verbatim>\<open>SdlScreen::render\<close>: the screen is cleared to black, the draw colour is set to
  white, the cells are walked, the frame is presented.
\<close>

definition render :: "int32 \<Rightarrow> grid \<Rightarrow> sdl_call list" where
  "render cellSize g =
     [SDL_SetRenderDrawColor 0 0 0 255, SDL_RenderClear,
      SDL_SetRenderDrawColor 255 255 255 255]
     @ render_rows cellSize g 0
     @ [SDL_RenderPresent]"

text \<open>
  What the renderer paints: every fill uses the draw colour set by the latest
  \<^verbatim>\<open>SDL_SetRenderDrawColor\<close>.
\<close>

type_synonym colour = "Uint8 \<times> Uint8 \<times> Uint8 \<times> Uint8"

fun painted :: "colour \<Rightarrow> sdl_call list \<Rightarrow> (SDL_Rect \<times> colour) list" where
  "painted c [] = []"
| "painted c (SDL_SetRenderDrawColor r g b a # cs) = painted (r, g, b, a) cs"
| "painted c (SDL_RenderFillRect rect # cs) = (rect, c) # painted c cs"
| "painted c (_ # cs) = painted c cs"

fun is_fill :: "sdl_call \<Rightarrow> bool" where
  "is_fill (SDL_RenderFillRect _) = True"
| "is_fill _ = False"

text \<open>The rectangle of the cell at \<open>(row, col)\<close>, in the arithmetic of \<^verbatim>\<open>int\<close>.\<close>

definition cell_rect :: "int32 \<Rightarrow> nat \<Rightarrow> nat \<Rightarrow> SDL_Rect" where
  "cell_rect cellSize row col =
     \<lparr>rect_x = of_nat col * cellSize, rect_y = of_nat row * cellSize,
      rect_w = cellSize, rect_h = cellSize\<rparr>"

text \<open>The draw colour in force after a sequence of calls.\<close>

fun draw_colour :: "colour \<Rightarrow> sdl_call list \<Rightarrow> colour" where
  "draw_colour c [] = c"
| "draw_colour c (SDL_SetRenderDrawColor r g b a # cs) = draw_colour (r, g, b, a) cs"
| "draw_colour c (_ # cs) = draw_colour c cs"

definition white :: colour where
  "white = (255, 255, 255, 255)"

text \<open>Whatever the draw colour was before, every rectangle painted is white.\<close>

definition paints_white :: "sdl_call list \<Rightarrow> bool" where
  "paints_white xs = (\<forall>c. \<forall>p \<in> set (painted c xs). snd p = white)"

section \<open>The automaton\<close>

text \<open>
  Modelled from the spec: \<^verbatim>\<open>ConwayLife::step\<close> and its neighbour count
  (\<^verbatim>\<open>ConwayLife.hpp\<close> and \<^verbatim>\<open>CellularAutomaton.hpp\<close> are not among the sources; only
  the caller in \<^verbatim>\<open>Program_04/main.cpp\<close> is). The spec gives a grid of integer cell
  states with alive = 1 and dead = 0, of fixed dimensions, and a step that applies
  Conway's Game of Life rule to every cell from its state and its number of live
  neighbours: a live cell with two or three live neighbours stays alive, a dead cell with
  exactly three becomes alive, every other cell is dead in the next generation. The spec
  does not say what happens at the border, so the treatment of the border is a
  parameter: \<open>bounded\<close> counts nothing outside the grid, \<open>torus\<close> wraps around.
\<close>

text \<open>
  Modelled from the spec: Conway's rule on a state and a number of live neighbours (birth
  on three, survival on two or three, death otherwise).
\<close>

definition conway_rule :: "int32 \<Rightarrow> nat \<Rightarrow> int32" where
  "conway_rule s n =
     (if s = 1 then (if n = 2 \<or> n = 3 then 1 else 0)
      else (if n = 3 then 1 else 0))"

text \<open>Modelled from the spec: the fixed neighbourhood, the eight cells around a cell.\<close>

definition moore :: "(int \<times> int) list" where
  "moore = [(-1, -1), (-1, 0), (-1, 1), (0, -1), (0, 1), (1, -1), (1, 0), (1, 1)]"

text \<open>
  Modelled from the spec: the border, about which the spec is silent. An \<open>edge\<close> maps a
  size and a coordinate to the index the coordinate stands for, if any.
\<close>

type_synonym edge = "nat \<Rightarrow> int \<Rightarrow> nat option"

text \<open>Modelled from the spec: a border beyond which there is no cell.\<close>

definition bounded :: edge where
  "bounded n i = (if 0 \<le> i \<and> i < int n then Some (nat i) else None)"

text \<open>Modelled from the spec: a grid whose opposite borders are joined.\<close>

definition torus :: edge where
  "torus n i = (if n = 0 then None else Some (nat (i mod int n)))"

text \<open>
  Modelled from the spec: the state of the cell at a coordinate; a coordinate that stands
  for no cell reads as dead.
\<close>

definition cell_at :: "edge \<Rightarrow> grid \<Rightarrow> int \<Rightarrow> int \<Rightarrow> int32" where
  "cell_at edge g r c =
     (case edge (length g) r of
        None \<Rightarrow> 0
      | Some i \<Rightarrow>
          if i < length g then
            (case edge (length (g ! i)) c of
               None \<Rightarrow> 0
             | Some j \<Rightarrow> if j < length (g ! i) then g ! i ! j else 0)
          else 0)"

text \<open>
  Modelled from the spec: the count of live neighbours, a neighbour being alive when its
  state is 1.
\<close>

definition live_neighbours :: "edge \<Rightarrow> grid \<Rightarrow> nat \<Rightarrow> nat \<Rightarrow> nat" where
  "live_neighbours edge g r c =
     length (filter (\<lambda>(dr, dc). cell_at edge g (int r + dr) (int c + dc) = 1) moore)"

text \<open>
  Modelled from the spec: \<^verbatim>\<open>ConwayLife::step\<close>, the rule applied to every cell of the
  current grid at once.
\<close>

definition step :: "edge \<Rightarrow> grid \<Rightarrow> grid" where
  "step edge g =
     map (\<lambda>r. map (\<lambda>c. conway_rule (g ! r ! c) (live_neighbours edge g r c))
                   [0..<length (g ! r)])
         [0..<length g]"

section \<open>JSON values\<close>

text \<open>
  The values of the JSON library as the programs use them. An object is a list of
  key-value pairs read through \<open>map_of\<close>, so that the first pair of a key is the one
  that counts, and walked in the ascending order of its keys, as the library's sorted map
  is; floating-point numbers are left out, no program here computes with one. \<open>type_error 305\<close> is raised by \<^verbatim>\<open>operator[]\<close> with
  a string key on a value that is neither an object nor null, \<open>type_error 302\<close> by a
  conversion to \<^verbatim>\<open>int\<close> of a value that is not a number, and \<open>invalid_iterator 207\<close>
  by \<^verbatim>\<open>key()\<close> on an iterator that does not walk an object.
\<close>

datatype json =
    JNull
  | JBool bool
  | JInt int
  | JString string
  | JArray "json list"
  | JObject "(string \<times> json) list"

datatype json_error = type_error nat | invalid_iterator nat

text \<open>\<^verbatim>\<open>j.find(key)\<close>: \<open>None\<close> stands for \<^verbatim>\<open>j.end()\<close>.\<close>

fun json_find :: "json \<Rightarrow> string \<Rightarrow> json option" where
  "json_find (JObject kvs) key = map_of kvs key"
| "json_find _ key = None"

text \<open>\<^verbatim>\<open>j[key] = v\<close>: null becomes an object first.\<close>

fun obj_put :: "string \<Rightarrow> json \<Rightarrow> (string \<times> json) list \<Rightarrow> (string \<times> json) list" where
  "obj_put key v [] = [(key, v)]"
| "obj_put key v ((k, w) # kvs) = (if k = key then (key, v) # kvs else (k, w) # obj_put key v kvs)"

fun json_set :: "json \<Rightarrow> string \<Rightarrow> json \<Rightarrow> json_error + json" where
  "json_set JNull key v = Inr (JObject [(key, v)])"
| "json_set (JObject kvs) key v = Inr (JObject (obj_put key v kvs))"
| "json_set _ key v = Inl (type_error 305)"

section \<open>Program 04: the merge of the default parameters\<close>

text \<open>The global \<^verbatim>\<open>defaults\<close>, in the key order in which \<^verbatim>\<open>items()\<close> walks it.\<close>

definition defaults :: "(string \<times> json) list" where
  "defaults = [(''cellSize'', JInt 10), (''frameDelayMs'', JInt 500),
               (''generations'', JInt 1000), (''height'', JInt 600), (''width'', JInt 800)]"

text \<open>The loop over \<^verbatim>\<open>defaults.items()\<close>, started on the result of \<^verbatim>\<open>ArgsToJson\<close>.\<close>

fun merge_defaults :: "(string \<times> json) list \<Rightarrow> json \<Rightarrow> json_error + json" where
  "merge_defaults [] params = Inr params"
| "merge_defaults ((key, v) # ds) params =
     (if json_find params key = None then
        (case json_set params key v of
           Inl e \<Rightarrow> Inl e
         | Inr params' \<Rightarrow> merge_defaults ds params')
      else merge_defaults ds params)"

section \<open>The grid example: integers and the centring of the shape\<close>

text \<open>
  The arithmetic of \<^verbatim>\<open>int\<close>: a result outside the 32-bit range, a division by zero
  and a read beyond the end of a vector are undefined behaviour, written \<open>None\<close>.
  \<^verbatim>\<open>/\<close> truncates towards zero.
\<close>

definition in_int :: "int \<Rightarrow> bool" where
  "in_int k = (- (2 ^ 31) \<le> k \<and> k < 2 ^ 31)"

definition checked :: "int \<Rightarrow> int32 option" where
  "checked k = (if in_int k then Some (word_of_int k) else None)"

definition int_add :: "int32 \<Rightarrow> int32 \<Rightarrow> int32 option" where
  "int_add a b = checked (sint a + sint b)"

definition int_sub :: "int32 \<Rightarrow> int32 \<Rightarrow> int32 option" where
  "int_sub a b = checked (sint a - sint b)"

definition int_mul :: "int32 \<Rightarrow> int32 \<Rightarrow> int32 option" where
  "int_mul a b = checked (sint a * sint b)"

definition int_div :: "int32 \<Rightarrow> int32 \<Rightarrow> int32 option" where
  "int_div a b = (if b = 0 then None else checked (sint a sdiv sint b))"

definition int_min :: "int32 \<Rightarrow> int32 \<Rightarrow> int32" where
  "int_min a b = (if sint b < sint a then b else a)"

definition int_max :: "int32 \<Rightarrow> int32 \<Rightarrow> int32" where
  "int_max a b = (if sint a < sint b then b else a)"

record Cell =
  cell_x :: int32
  cell_y :: int32

text \<open>\<^verbatim>\<open>minX\<close>, \<^verbatim>\<open>maxX\<close>, \<^verbatim>\<open>minY\<close>, \<^verbatim>\<open>maxY\<close> and the loop that updates them.\<close>

record bounds =
  minX :: int32
  maxX :: int32
  minY :: int32
  maxY :: int32

fun bounds_loop :: "Cell list \<Rightarrow> bounds \<Rightarrow> bounds" where
  "bounds_loop [] b = b"
| "bounds_loop (cell # cells) b =
     bounds_loop cells
       \<lparr>minX = int_min (minX b) (cell_x cell), maxX = int_max (maxX b) (cell_x cell),
        minY = int_min (minY b) (cell_y cell), maxY = int_max (maxY b) (cell_y cell)\<rparr>"

definition first_bounds :: "Cell \<Rightarrow> bounds" where
  "first_bounds first = \<lparr>minX = cell_x first, maxX = cell_x first,
                          minY = cell_y first, maxY = cell_y first\<rparr>"

text \<open>
  The centring computation: \<^verbatim>\<open>shape.cells[0]\<close> is read first, without a check that
  the vector has an element.
\<close>

record centering =
  box :: bounds
  patternWidth :: int32
  patternHeight :: int32
  offsetX :: int32
  offsetY :: int32

definition center_shape :: "int32 \<Rightarrow> int32 \<Rightarrow> Cell list \<Rightarrow> centering option" where
  "center_shape gridWidth gridHeight cells =
     (case cells of
        [] \<Rightarrow> None
      | first # _ \<Rightarrow>
          (let b = bounds_loop cells (first_bounds first)
           in do {
             dx \<leftarrow> int_sub (maxX b) (minX b);
             pw \<leftarrow> int_add dx 1;
             dy \<leftarrow> int_sub (maxY b) (minY b);
             ph \<leftarrow> int_add dy 1;
             fx \<leftarrow> int_sub gridWidth pw;
             hx \<leftarrow> int_div fx 2;
             ox \<leftarrow> int_sub hx (minX b);
             fy \<leftarrow> int_sub gridHeight ph;
             hy \<leftarrow> int_div fy 2;
             oy \<leftarrow> int_sub hy (minY b);
             Some \<lparr>box = b, patternWidth = pw, patternHeight = ph,
                   offsetX = ox, offsetY = oy\<rparr>
           }))"

section \<open>Program 04: the main loop\<close>

text \<open>
  The events the programs tell apart: the type \<^verbatim>\<open>SDL_QUIT\<close>, a key press with its key
  symbol, and everything else.
\<close>

datatype SDL_Event = SDL_QUIT | SDL_KEYDOWN int32 | SDL_OTHER nat

text \<open>
  \<^verbatim>\<open>Click\<close> and \<^verbatim>\<open>ConwayLife\<close> are declared in headers that are not among the
  sources. The loop is modelled over any implementation of the methods it calls: the state
  of the click tracker is a \<open>'c\<close>, that of the automaton an \<open>'a\<close>.
\<close>

record ('c, 'a) classes =
  handleEvent :: "'c \<Rightarrow> SDL_Event \<Rightarrow> 'c"
  leftClicked :: "'c \<Rightarrow> bool"
  click_x :: "'c \<Rightarrow> int32"
  click_y :: "'c \<Rightarrow> int32"
  inside :: "'c \<Rightarrow> SDL_Rect \<Rightarrow> bool"
  getGrid :: "'a \<Rightarrow> grid"
  gol_step :: "'a \<Rightarrow> 'a"

text \<open>
  What one run of the loop does, in order: the two messages on standard output, the call
  of \<^verbatim>\<open>screen.render\<close> with the grid it is given, the call of \<^verbatim>\<open>gol.step\<close>, and
  the call of \<^verbatim>\<open>screen.pause\<close> with its delay.
\<close>

datatype observation =
    Clicked_at int32 int32
  | Button_pressed
  | Render grid
  | Step
  | Pause int32

text \<open>
  How a run ends: still in the loop when the given events are used up, \<^verbatim>\<open>exit\<close>, a
  return from \<^verbatim>\<open>main\<close>, an exception that nothing catches, or undefined behaviour.
\<close>

datatype status =
    Running
  | Exited int32
  | Returned int32
  | Terminated json_error
  | Undefined

text \<open>
  The events that arrive during one iteration: those the loop's own
  \<^verbatim>\<open>SDL_PollEvent\<close> loop drains, and those drained inside \<^verbatim>\<open>pause\<close>.
\<close>

record frame =
  main_events :: "SDL_Event list"
  pause_events :: "SDL_Event list"

text \<open>The inner \<^verbatim>\<open>while (SDL_PollEvent(&e))\<close> of the main loop.\<close>

fun poll_events ::
  "('c, 'a) classes \<Rightarrow> 'c \<Rightarrow> bool \<Rightarrow> SDL_Event list \<Rightarrow> 'c \<times> bool" where
  "poll_events ops click running [] = (click, running)"
| "poll_events ops click running (e # es) =
     poll_events ops (handleEvent ops click e) (if e = SDL_QUIT then False else running) es"

text \<open>
  \<^verbatim>\<open>SdlScreen::pause\<close> after the delay: \<open>True\<close> when an \<^verbatim>\<open>SDL_QUIT\<close> is polled and
  \<^verbatim>\<open>exit(0)\<close> is called.
\<close>

fun pause_exits :: "SDL_Event list \<Rightarrow> bool" where
  "pause_exits [] = False"
| "pause_exits (event # events) = (if event = SDL_QUIT then True else pause_exits events)"

definition button :: SDL_Rect where
  "button = \<lparr>rect_x = 100, rect_y = 100, rect_w = 200, rect_h = 100\<rparr>"

text \<open>The body of \<^verbatim>\<open>while (running)\<close> from the messages on.\<close>

definition loop_body :: "('c, 'a) classes \<Rightarrow> 'c \<Rightarrow> 'a \<Rightarrow> observation list" where
  "loop_body ops click gol =
     (if leftClicked ops click then [Clicked_at (click_x ops click) (click_y ops click)] else [])
     @ (if leftClicked ops click \<and> inside ops click button then [Button_pressed] else [])
     @ [Render (getGrid ops gol), Step, Pause 500]"

text \<open>
  The loop. It may run forever, so it is run on the events of finitely many iterations and
  is \<open>Running\<close> when they are used up.
\<close>

fun main_loop ::
  "('c, 'a) classes \<Rightarrow> frame list \<Rightarrow> 'c \<Rightarrow> 'a \<Rightarrow> observation list \<times> status \<times> 'a" where
  "main_loop ops [] click gol = ([], Running, gol)"
| "main_loop ops (f # fs) click gol =
     (case poll_events ops click True (main_events f) of
        (click', running) \<Rightarrow>
          let obs = loop_body ops click' gol;
              gol' = gol_step ops gol
          in if pause_exits (pause_events f) then (obs, Exited 0, gol')
             else if running then
               (case main_loop ops fs click' gol' of
                  (rest, st, gol'') \<Rightarrow> (obs @ rest, st, gol''))
             else (obs, Returned 0, gol'))"

fun is_sim :: "observation \<Rightarrow> bool" where
  "is_sim (Render _) = True"
| "is_sim Step = True"
| "is_sim (Pause _) = True"
| "is_sim _ = False"

text \<open>The number of iterations the loop runs on the given events.\<close>

fun iterations :: "frame list \<Rightarrow> nat" where
  "iterations [] = 0"
| "iterations (f # fs) =
     (if SDL_QUIT \<in> set (pause_events f) \<or> SDL_QUIT \<in> set (main_events f) then 1
      else Suc (iterations fs))"

section \<open>The grid example: loading the shape\<close>

text \<open>\<^verbatim>\<open>j.contains(key)\<close>: only an object contains a key.\<close>

fun json_contains :: "json \<Rightarrow> string \<Rightarrow> bool" where
  "json_contains (JObject kvs) key = (map_of kvs key \<noteq> None)"
| "json_contains _ key = False"

text \<open>
  The value read through \<^verbatim>\<open>j[key]\<close> on a value that is not \<^verbatim>\<open>const\<close>: a missing
  key, and any key of null, reads as null.
\<close>

fun member :: "json \<Rightarrow> string \<Rightarrow> json" where
  "member (JObject kvs) key = (case map_of kvs key of None \<Rightarrow> JNull | Some v \<Rightarrow> v)"
| "member _ key = JNull"

fun json_at :: "json \<Rightarrow> string \<Rightarrow> json_error + json" where
  "json_at JNull key = Inr JNull"
| "json_at (JObject kvs) key = Inr (member (JObject kvs) key)"
| "json_at _ key = Inl (type_error 305)"

text \<open>
  An object is a map ordered by its keys, which are compared byte by byte: an iteration
  meets every key once, in ascending order.
\<close>

definition object_keys :: "(string \<times> json) list \<Rightarrow> string list" where
  "object_keys kvs = sort (remdups (map fst kvs))"

text \<open>
  The loop that prints \<^verbatim>\<open>it.key()\<close> for every element: null and an empty array have
  no element, and \<^verbatim>\<open>key()\<close> throws on an element of anything but an object.
\<close>

fun iter_keys :: "json \<Rightarrow> json_error + string list" where
  "iter_keys (JObject kvs) = Inr (object_keys kvs)"
| "iter_keys JNull = Inr []"
| "iter_keys (JArray []) = Inr []"
| "iter_keys _ = Inl (invalid_iterator 207)"

text \<open>
  The elements a range-based \<^verbatim>\<open>for\<close> walks: those of an array in their order, the
  values of an object in the order of their keys, none for null, and a number, boolean or
  string itself.
\<close>

fun json_items :: "json \<Rightarrow> json list" where
  "json_items (JArray xs) = xs"
| "json_items (JObject kvs) = map (member (JObject kvs)) (object_keys kvs)"
| "json_items JNull = []"
| "json_items v = [v]"

text \<open>The conversion to \<^verbatim>\<open>int\<close>: of a number, or of a boolean.\<close>

fun json_to_int :: "json \<Rightarrow> json_error + int32" where
  "json_to_int (JInt n) = Inr (word_of_int n)"
| "json_to_int (JBool b) = Inr (if b then 1 else 0)"
| "json_to_int _ = Inl (type_error 302)"

definition json_int_at :: "json \<Rightarrow> string \<Rightarrow> json_error + int32" where
  "json_int_at j key = (case json_at j key of Inl e \<Rightarrow> Inl e | Inr v \<Rightarrow> json_to_int v)"

record Shape =
  shape_name :: string
  shape_width :: int32
  shape_height :: int32
  shape_cells :: "Cell list"

text \<open>
  What the program leaves behind: its exit, its lines on \<^verbatim>\<open>std::cerr\<close> (without the
  text of the library's own message) and its SDL calls. Standard output is left out.
\<close>

record result =
  exit_status :: status
  cerr :: "string list"
  sdl :: "sdl_call list"

definition fail1 :: "string \<Rightarrow> sdl_call list \<Rightarrow> result" where
  "fail1 message calls = \<lparr>exit_status = Returned 1, cerr = [message], sdl = calls\<rparr>"

definition uncaught :: "json_error \<Rightarrow> result" where
  "uncaught e = \<lparr>exit_status = Terminated e, cerr = [], sdl = []\<rparr>"

definition undefined_behaviour :: "sdl_call list \<Rightarrow> result" where
  "undefined_behaviour calls = \<lparr>exit_status = Undefined, cerr = [], sdl = calls\<rparr>"

text \<open>\<^verbatim>\<open>shapes.json\<close> as the program finds it.\<close>

datatype file_state = Cannot_open | Unparsable | Parsed json

text \<open>From the opening of the file to \<^verbatim>\<open>shapes_data[choice]\<close>.\<close>

definition select_shape :: "file_state \<Rightarrow> string \<Rightarrow> result + json" where
  "select_shape file choice =
     (case file of
        Cannot_open \<Rightarrow> Inl (fail1 ''Error: Could not open shapes.json'' [])
      | Unparsable \<Rightarrow> Inl (fail1 ''JSON parse error: '' [])
      | Parsed data \<Rightarrow>
          if \<not> json_contains data ''shapes''
          then Inl (fail1 ''Error: JSON missing 'shapes' key'' [])
          else
            (case json_at data ''shapes'' of
               Inl e \<Rightarrow> Inl (uncaught e)
             | Inr shapes_data \<Rightarrow>
                 (case iter_keys shapes_data of
                    Inl e \<Rightarrow> Inl (uncaught e)
                  | Inr keys \<Rightarrow>
                      if \<not> json_contains shapes_data choice
                      then Inl (fail1 ''Shape not found.'' [])
                      else
                        (case json_at shapes_data choice of
                           Inl e \<Rightarrow> Inl (uncaught e)
                         | Inr shape_json \<Rightarrow> Inr shape_json))))"

text \<open>The loop over \<^verbatim>\<open>shape_json["cells"]\<close>.\<close>

fun read_cells :: "json list \<Rightarrow> json_error + Cell list" where
  "read_cells [] = Inr []"
| "read_cells (cell # cells) =
     (case json_int_at cell ''x'' of
        Inl e \<Rightarrow> Inl e
      | Inr x \<Rightarrow>
          (case json_int_at cell ''y'' of
             Inl e \<Rightarrow> Inl e
           | Inr y \<Rightarrow>
               (case read_cells cells of
                  Inl e \<Rightarrow> Inl e
                | Inr rest \<Rightarrow> Inr (\<lparr>cell_x = x, cell_y = y\<rparr> # rest))))"

text \<open>
  The fields of \<^verbatim>\<open>Shape\<close>: the name, then \<^verbatim>\<open>shape_json["size"]["w"]\<close> and
  \<^verbatim>\<open>["h"]\<close>, then the cells. Every conversion may throw, and nothing catches it.
\<close>

definition read_shape :: "string \<Rightarrow> json \<Rightarrow> json_error + Shape" where
  "read_shape choice shape_json =
     (case json_at shape_json ''size'' of
        Inl e \<Rightarrow> Inl e
      | Inr size_entry \<Rightarrow>
          (case json_int_at size_entry ''w'' of
             Inl e \<Rightarrow> Inl e
           | Inr w \<Rightarrow>
               (case json_int_at size_entry ''h'' of
                  Inl e \<Rightarrow> Inl e
                | Inr h \<Rightarrow>
                    (case json_at shape_json ''cells'' of
                       Inl e \<Rightarrow> Inl e
                     | Inr cells_json \<Rightarrow>
                         (case read_cells (json_items cells_json) of
                            Inl e \<Rightarrow> Inl e
                          | Inr cells \<Rightarrow>
                              Inr \<lparr>shape_name = choice, shape_width = w, shape_height = h,
                                   shape_cells = cells\<rparr>)))))"

section \<open>The grid example: configuration\<close>

text \<open>\<^verbatim>\<open>params.contains(key) ? (int)params[key] : d\<close>\<close>

definition param_or :: "json \<Rightarrow> string \<Rightarrow> int32 \<Rightarrow> json_error + int32" where
  "param_or params key d = (if json_contains params key then json_int_at params key else Inr d)"

record config =
  cfg_shape :: Shape
  cfg_cellSize :: int32
  cfg_windowWidth :: int32
  cfg_windowHeight :: int32
  cfg_gridWidth :: int32
  cfg_gridHeight :: int32
  cfg_centre :: centering

text \<open>The three parameters, then the two divisions, then the centring.\<close>

definition configure :: "json \<Rightarrow> Shape \<Rightarrow> result + config" where
  "configure params sh =
     (case param_or params ''cell_size'' 20 of
        Inl e \<Rightarrow> Inl (uncaught e)
      | Inr cs \<Rightarrow>
          (case param_or params ''width'' 600 of
             Inl e \<Rightarrow> Inl (uncaught e)
           | Inr ww \<Rightarrow>
               (case param_or params ''height'' 400 of
                  Inl e \<Rightarrow> Inl (uncaught e)
                | Inr wh \<Rightarrow>
                    (case int_div ww cs of
                       None \<Rightarrow> Inl (undefined_behaviour [])
                     | Some gw \<Rightarrow>
                         (case int_div wh cs of
                            None \<Rightarrow> Inl (undefined_behaviour [])
                          | Some gh \<Rightarrow>
                              (case center_shape gw gh (shape_cells sh) of
                                 None \<Rightarrow> Inl (undefined_behaviour [])
                               | Some c \<Rightarrow>
                                   Inr \<lparr>cfg_shape = sh, cfg_cellSize = cs,
                                        cfg_windowWidth = ww, cfg_windowHeight = wh,
                                        cfg_gridWidth = gw, cfg_gridHeight = gh,
                                        cfg_centre = c\<rparr>))))))"

section \<open>The grid example: window, frames and the loop\<close>

text \<open>
  The world outside the program. A \<open>tick\<close> is what one iteration of the loop receives:
  the pending events and the three values of \<^verbatim>\<open>rand()\<close>. A \<open>world\<close> holds the result
  of \<^verbatim>\<open>ArgsToJson\<close>, the state of \<^verbatim>\<open>shapes.json\<close>, the word read from
  \<^verbatim>\<open>std::cin\<close>, whether \<^verbatim>\<open>SDL_Init\<close>, \<^verbatim>\<open>SDL_CreateWindow\<close> and
  \<^verbatim>\<open>SDL_CreateRenderer\<close> succeed when they are called, and the ticks.
\<close>

record tick =
  tick_events :: "SDL_Event list"
  rand_r :: nat
  rand_g :: nat
  rand_b :: nat

record world =
  args :: json
  shapes_file :: file_state
  cin_choice :: string
  sdl_init_ok :: bool
  window_ok :: bool
  renderer_ok :: bool
  ticks :: "tick list"

text \<open>\<^verbatim>\<open>SDL_Init\<close>, the window and the renderer, each with its check.\<close>

definition sdl_start :: "world \<Rightarrow> config \<Rightarrow> result + sdl_call list" where
  "sdl_start w cfg =
     (if \<not> sdl_init_ok w then Inl (fail1 ''SDL Init Error: '' [SDL_Init])
      else if \<not> window_ok w then
        Inl (fail1 ''Window Error: ''
               [SDL_Init, SDL_CreateWindow (cfg_windowWidth cfg) (cfg_windowHeight cfg),
                SDL_Quit])
      else if \<not> renderer_ok w then
        Inl (fail1 ''Renderer Error: ''
               [SDL_Init, SDL_CreateWindow (cfg_windowWidth cfg) (cfg_windowHeight cfg),
                SDL_CreateRenderer, SDL_DestroyWindow, SDL_Quit])
      else
        Inr [SDL_Init, SDL_CreateWindow (cfg_windowWidth cfg) (cfg_windowHeight cfg),
             SDL_CreateRenderer])"

definition SDLK_ESCAPE :: int32 where
  "SDLK_ESCAPE = 27"

text \<open>The event loop of one frame, on the flag \<^verbatim>\<open>running\<close>.\<close>

fun poll_running :: "bool \<Rightarrow> SDL_Event list \<Rightarrow> bool" where
  "poll_running running [] = running"
| "poll_running running (event # events) =
     poll_running
       (let running' = (if event = SDL_QUIT then False else running)
        in if event = SDL_KEYDOWN SDLK_ESCAPE then False else running')
       events"

text \<open>
  \<^verbatim>\<open>for (int v = 0; v <= limit; v += cellSize)\<close> drawing one grid line per round. The
  loop is reached only after the divisions by \<^verbatim>\<open>cellSize\<close>; with a \<^verbatim>\<open>cellSize\<close> of
  zero it would not end, and \<open>None\<close> stands for that as well.
\<close>

function lines_loop ::
  "(int32 \<Rightarrow> sdl_call) \<Rightarrow> int32 \<Rightarrow> int32 \<Rightarrow> int32 \<Rightarrow> sdl_call list option" where
  "lines_loop line cellSize limit v =
     (if cellSize = 0 then None
      else if sint v \<le> sint limit then
        (case int_add v cellSize of
           None \<Rightarrow> None
         | Some v' \<Rightarrow> map_option ((#) (line v)) (lines_loop line cellSize limit v'))
      else Some [])"
  by pat_completeness auto
termination
proof (relation "measure (\<lambda>(line, cellSize, limit, v).
         if 0 < sint cellSize then nat (sint limit - sint v + 1)
         else nat (sint v + 2 ^ 31 + 1))")
  show "wf (measure (\<lambda>(line :: int32 \<Rightarrow> sdl_call, cellSize :: int32, limit :: int32, v :: int32).
         if 0 < sint cellSize then nat (sint limit - sint v + 1)
         else nat (sint v + 2 ^ 31 + 1)))"
    by simp
next
  fix line :: "int32 \<Rightarrow> sdl_call" and cellSize limit v v' :: int32
  assume nz: "cellSize \<noteq> 0" and le: "sint v \<le> sint limit"
    and a: "int_add v cellSize = Some v'"
  have c: "sint u = k" if "checked k = Some u" for k u
    using that
    by (auto simp: checked_def in_int_def sint_sbintrunc' signed_take_bit_int_eq_self
          split: if_splits)
  have s: "sint v' = sint v + sint cellSize"
    using a unfolding int_add_def by (rule c)
  have "sint cellSize \<noteq> 0"
  proof
    assume "sint cellSize = 0"
    then have "(word_of_int (sint cellSize) :: int32) = word_of_int 0" by (simp only:)
    then show False using nz by simp
  qed
  moreover have "- (2 ^ 31) \<le> sint v'"
    using sint_range_size [of v'] by (simp add: word_size)
  ultimately show "((line, cellSize, limit, v'), (line, cellSize, limit, v))
        \<in> measure (\<lambda>(line, cellSize, limit, v).
             if 0 < sint cellSize then nat (sint limit - sint v + 1)
             else nat (sint v + 2 ^ 31 + 1))"
    using le s by auto
qed

text \<open>The loop over \<^verbatim>\<open>shape.cells\<close> that fills one rectangle per cell.\<close>

fun shape_rects :: "int32 \<Rightarrow> int32 \<Rightarrow> int32 \<Rightarrow> Cell list \<Rightarrow> sdl_call list option" where
  "shape_rects cellSize offX offY [] = Some []"
| "shape_rects cellSize offX offY (cell # cells) =
     do {
       sx \<leftarrow> int_add (cell_x cell) offX;
       px \<leftarrow> int_mul sx cellSize;
       sy \<leftarrow> int_add (cell_y cell) offY;
       py \<leftarrow> int_mul sy cellSize;
       rest \<leftarrow> shape_rects cellSize offX offY cells;
       Some (SDL_RenderFillRect
               \<lparr>rect_x = px, rect_y = py, rect_w = cellSize, rect_h = cellSize\<rparr> # rest)
     }"

text \<open>
  One frame, after the event loop: the background, the grid lines, the colour drawn from
  \<^verbatim>\<open>rand()\<close>, the cells of the shape, the presentation and the delay.
\<close>

definition draw_frame :: "config \<Rightarrow> tick \<Rightarrow> sdl_call list option" where
  "draw_frame cfg t =
     do {
       vertical \<leftarrow> lines_loop (\<lambda>x. SDL_RenderDrawLine x 0 x (cfg_windowHeight cfg))
                     (cfg_cellSize cfg) (cfg_windowWidth cfg) 0;
       horizontal \<leftarrow> lines_loop (\<lambda>y. SDL_RenderDrawLine 0 y (cfg_windowWidth cfg) y)
                       (cfg_cellSize cfg) (cfg_windowHeight cfg) 0;
       rects \<leftarrow> shape_rects (cfg_cellSize cfg) (offsetX (cfg_centre cfg))
                  (offsetY (cfg_centre cfg)) (shape_cells (cfg_shape cfg));
       Some ([SDL_SetRenderDrawColor 30 30 40 255, SDL_RenderClear,
              SDL_SetRenderDrawColor 80 80 100 255]
             @ vertical @ horizontal
             @ [SDL_SetRenderDrawColor (of_nat (rand_r t mod 256)) (of_nat (rand_g t mod 256))
                  (of_nat (rand_b t mod 256)) 255]
             @ rects
             @ [SDL_RenderPresent, SDL_Delay 16])
     }"

text \<open>
  \<^verbatim>\<open>while (running)\<close>, on the events and random numbers of finitely many frames; it is
  \<open>Running\<close> when they are used up.
\<close>

fun grid_loop :: "config \<Rightarrow> tick list \<Rightarrow> sdl_call list \<times> status" where
  "grid_loop cfg [] = ([], Running)"
| "grid_loop cfg (t # ts) =
     (let running = poll_running True (tick_events t)
      in case draw_frame cfg t of
           None \<Rightarrow> ([], Undefined)
         | Some calls \<Rightarrow>
             if running then
               (case grid_loop cfg ts of (rest, st) \<Rightarrow> (calls @ rest, st))
             else (calls, Returned 0))"

text \<open>Everything before \<^verbatim>\<open>SDL_Init\<close>.\<close>

definition prepare :: "world \<Rightarrow> result + config" where
  "prepare w =
     (case select_shape (shapes_file w) (cin_choice w) of
        Inl r \<Rightarrow> Inl r
      | Inr shape_json \<Rightarrow>
          (case read_shape (cin_choice w) shape_json of
             Inl e \<Rightarrow> Inl (uncaught e)
           | Inr sh \<Rightarrow> configure (args w) sh))"

text \<open>\<^verbatim>\<open>main\<close> of the grid example.\<close>

definition grid_example_main :: "world \<Rightarrow> result" where
  "grid_example_main w =
     (case prepare w of
        Inl r \<Rightarrow> r
      | Inr cfg \<Rightarrow>
          (case sdl_start w cfg of
             Inl r \<Rightarrow> r
           | Inr started \<Rightarrow>
               (case grid_loop cfg (ticks w) of
                  (calls, st) \<Rightarrow>
                    \<lparr>exit_status = st, cerr = [],
                     sdl = started @ calls
                           @ (if st = Returned 0
                              then [SDL_DestroyRenderer, SDL_DestroyWindow, SDL_Quit]
                              else [])\<rparr>)))"

section \<open>The grid example: the conditions of its error exits\<close>

text \<open>The values whose keys the program can list: objects, and values with no element.\<close>

fun listable :: "json \<Rightarrow> bool" where
  "listable (JObject kvs) = True"
| "listable JNull = True"
| "listable (JArray []) = True"
| "listable _ = False"

text \<open>
  The file cannot be opened, cannot be parsed, has no top-level key \<open>shapes\<close>, or the
  entered name is not a key of \<open>shapes\<close>.
\<close>

definition name_not_loaded :: "world \<Rightarrow> bool" where
  "name_not_loaded w =
     (case shapes_file w of
        Cannot_open \<Rightarrow> True
      | Unparsable \<Rightarrow> True
      | Parsed data \<Rightarrow>
          \<not> json_contains data ''shapes'' \<or>
          \<not> json_contains (member data ''shapes'') (cin_choice w))"

text \<open>The same, with the keys of \<open>shapes\<close> listable where the name is looked up.\<close>

definition load_failure :: "world \<Rightarrow> bool" where
  "load_failure w =
     (case shapes_file w of
        Cannot_open \<Rightarrow> True
      | Unparsable \<Rightarrow> True
      | Parsed data \<Rightarrow>
          \<not> json_contains data ''shapes'' \<or>
          (listable (member data ''shapes'') \<and>
           \<not> json_contains (member data ''shapes'') (cin_choice w)))"

definition exits_1_with_error :: "result \<Rightarrow> bool" where
  "exits_1_with_error r = (exit_status r = Returned 1 \<and> cerr r \<noteq> [])"

text \<open>The rectangles of the shape's cells, as every frame computes them.\<close>

definition shape_fills :: "config \<Rightarrow> sdl_call list option" where
  "shape_fills cfg =
     shape_rects (cfg_cellSize cfg) (offsetX (cfg_centre cfg)) (offsetY (cfg_centre cfg))
       (shape_cells (cfg_shape cfg))"

text \<open>
  A sufficient condition for every frame to be drawn without leaving the range of
  \<^verbatim>\<open>int\<close>: a positive cell size, room for one more increment of the two line loops,
  and every pixel position of a cell within range.
\<close>

definition drawable :: "config \<Rightarrow> bool" where
  "drawable cfg =
     (0 < sint (cfg_cellSize cfg) \<and>
      sint (cfg_windowWidth cfg) + sint (cfg_cellSize cfg) < 2 ^ 31 \<and>
      sint (cfg_windowHeight cfg) + sint (cfg_cellSize cfg) < 2 ^ 31 \<and>
      (\<forall>cell \<in> set (shape_cells (cfg_shape cfg)).
         in_int ((sint (cell_x cell) + sint (offsetX (cfg_centre cfg)))
                 * sint (cfg_cellSize cfg)) \<and>
         in_int ((sint (cell_y cell) + sint (offsetY (cfg_centre cfg)))
                 * sint (cfg_cellSize cfg))))"

text \<open>
  The shape plays no part in the loop: with the shape of the configuration replaced by
  another one, and everything else the program has computed left as it is, the loop does
  the same on the given ticks.
\<close>

definition shape_unused_in_loop :: "config \<Rightarrow> tick list \<Rightarrow> Shape \<Rightarrow> bool" where
  "shape_unused_in_loop cfg ts sh = (grid_loop (cfg\<lparr>cfg_shape := sh\<rparr>) ts = grid_loop cfg ts)"

text \<open>The number of frames the loop draws on the given events.\<close>

fun frames_drawn :: "tick list \<Rightarrow> nat" where
  "frames_drawn [] = 0"
| "frames_drawn (t # ts) =
     (if poll_running True (tick_events t) then Suc (frames_drawn ts) else 1)"

section \<open>Example runs of the grid example\<close>

definition shapes_json :: json where
  "shapes_json =
     JObject [(''shapes'', JObject
       [(''block'',
           JObject [(''size'', JObject [(''w'', JInt 2), (''h'', JInt 1)]),
                    (''cells'', JArray [JObject [(''x'', JInt 0), (''y'', JInt 0)],
                                        JObject [(''x'', JInt 1), (''y'', JInt 0)]])]),
        (''dot'',
           JObject [(''size'', JObject [(''w'', JInt 1), (''h'', JInt 1)]),
                    (''cells'', JArray [JObject [(''x'', JInt 0), (''y'', JInt 0)]])]),
        (''bare'', JObject [])])]"

text \<open>
  A window of 40 by 40 pixels with cells of 20; the second frame receives the escape key.
\<close>

definition two_frames :: "string \<Rightarrow> world" where
  "two_frames choice =
     \<lparr>args = JObject [(''width'', JInt 40), (''height'', JInt 40), (''cell_size'', JInt 20)],
      shapes_file = Parsed shapes_json, cin_choice = choice,
      sdl_init_ok = True, window_ok = True, renderer_ok = True,
      ticks = [\<lparr>tick_events = [], rand_r = 7, rand_g = 8, rand_b = 9\<rparr>,
               \<lparr>tick_events = [SDL_KEYDOWN 27], rand_r = 1, rand_g = 2, rand_b = 3\<rparr>]\<rparr>"

text \<open>What the program has computed before \<^verbatim>\<open>SDL_Init\<close> when \<open>block\<close> is chosen.\<close>

definition block_config :: config where
  "block_config =
     \<lparr>cfg_shape =
        \<lparr>shape_name = ''block'', shape_width = 2, shape_height = 1,
         shape_cells = [\<lparr>cell_x = 0, cell_y = 0\<rparr>, \<lparr>cell_x = 1, cell_y = 0\<rparr>]\<rparr>,
      cfg_cellSize = 20, cfg_windowWidth = 40, cfg_windowHeight = 40,
      cfg_gridWidth = 2, cfg_gridHeight = 2,
      cfg_centre =
        \<lparr>box = \<lparr>minX = 0, maxX = 1, minY = 0, maxY = 0\<rparr>, patternWidth = 2,
         patternHeight = 1, offsetX = 0, offsetY = 0\<rparr>\<rparr>"

definition dot_shape :: Shape where
  "dot_shape =
     \<lparr>shape_name = ''dot'', shape_width = 1, shape_height = 1,
      shape_cells = [\<lparr>cell_x = 0, cell_y = 0\<rparr>]\<rparr>"

section \<open>Verification\<close>

subsection \<open>Index arithmetic of the renderer\<close>

lemma low32_of_mod64: "(word_of_int (take_bit 64 k) :: int32) = word_of_int k"
  by (simp add: word_of_int_eq_iff)

lemma ucast_64_32: "(ucast (w :: size_t) :: int32) = word_of_int (uint w)"
  by simp

lemma low32_mult: "(ucast ((a :: size_t) * b) :: int32) = ucast a * ucast b"
proof -
  have "(ucast (a * b) :: int32) = word_of_int (take_bit 64 (uint a * uint b))"
    by (subst ucast_64_32, subst uint_word_arith_bintrs) simp
  also have "\<dots> = word_of_int (uint a * uint b)"
    by (rule low32_of_mod64)
  finally show ?thesis by simp
qed

lemma low32_of_nat: "(ucast (of_nat n :: size_t) :: int32) = of_nat n"
proof -
  have "(of_nat n :: size_t) = word_of_int (int n)" by simp
  then have "(ucast (of_nat n :: size_t) :: int32) = word_of_int (take_bit 64 (int n))"
    by (simp only: ucast_64_32 uint_word_of_int take_bit_eq_mod) simp
  then show ?thesis by (simp only: low32_of_mod64) simp
qed

lemma low32_scast: "(ucast (scast (c :: int32) :: size_t) :: int32) = c"
proof -
  have "(scast c :: size_t) = word_of_int (sint c)" by simp
  then have "(ucast (scast c :: size_t) :: int32) = word_of_int (take_bit 64 (sint c))"
    by (simp only: ucast_64_32 uint_word_of_int take_bit_eq_mod) simp
  then show ?thesis by (simp only: low32_of_mod64) simp
qed

subsection \<open>The calls issued by render\<close>

lemma scale_eq: "scale idx cs = of_nat idx * cs"
  unfolding scale_def by (simp only: low32_mult low32_of_nat low32_scast)

lemma sint_scale:
  assumes "- (2 ^ 31) \<le> int idx * sint cs" "int idx * sint cs < 2 ^ 31"
  shows "sint (of_nat idx * cs :: int32) = int idx * sint cs"
proof -
  have "(of_nat idx * cs :: int32) = word_of_int (int idx * sint cs)"
    by simp
  then show ?thesis using assms
    by (simp only: sint_sbintrunc') (simp add: signed_take_bit_int_eq_self)
qed

declare render_cols.simps [simp del] render_rows.simps [simp del]

lemma render_cell_eq:
  "render_cell cs row col v =
     (if v = 1 then [SDL_SetRenderDrawColor 255 255 255 255,
                     SDL_RenderFillRect (cell_rect cs row col)] else [])"
  by (simp add: render_cell_def cell_rect_def scale_eq)

lemma render_cols_concat:
  "render_cols cs r row col =
     concat (map (\<lambda>c. render_cell cs row c (r ! c)) [col..<length r])"
proof (induction cs r row col rule: render_cols.induct)
  case (1 cs r row col)
  show ?case
  proof (cases "col < length r")
    case True
    then show ?thesis
      using "1.IH" by (subst render_cols.simps) (simp add: upt_conv_Cons)
  next
    case False
    then show ?thesis by (subst render_cols.simps) simp
  qed
qed

lemma render_rows_concat:
  "render_rows cs g row =
     concat (map (\<lambda>i. render_cols cs (g ! i) i 0) [row..<length g])"
proof (induction cs g row rule: render_rows.induct)
  case (1 cs g row)
  show ?case
  proof (cases "row < length g")
    case True
    then show ?thesis
      using "1.IH" by (subst render_rows.simps) (simp add: upt_conv_Cons)
  next
    case False
    then show ?thesis by (subst render_rows.simps) simp
  qed
qed

lemma filter_fill_cells:
  "filter is_fill (concat (map (\<lambda>c. render_cell cs row c (f c)) xs)) =
     map (\<lambda>col. SDL_RenderFillRect (cell_rect cs row col)) (filter (\<lambda>col. f col = 1) xs)"
  by (induction xs) (simp_all add: render_cell_eq)

lemma filter_fill_cols:
  "filter is_fill (render_cols cs r row 0) =
     map (\<lambda>col. SDL_RenderFillRect (cell_rect cs row col))
         (filter (\<lambda>col. r ! col = 1) [0..<length r])"
  unfolding render_cols_concat by (rule filter_fill_cells)

lemma filter_fill_render:
  "filter is_fill (render cs g) =
     concat (map (\<lambda>row. map (\<lambda>col. SDL_RenderFillRect (cell_rect cs row col))
                            (filter (\<lambda>col. g ! row ! col = 1) [0..<length (g ! row)]))
                 [0..<length g])"
  by (simp add: render_def render_rows_concat filter_concat filter_fill_cols comp_def)

lemma painted_append:
  "painted c (xs @ ys) = painted c xs @ painted (draw_colour c xs) ys"
  by (induction c xs rule: painted.induct) simp_all

lemma paints_white_append:
  "paints_white xs \<Longrightarrow> paints_white ys \<Longrightarrow> paints_white (xs @ ys)"
  unfolding paints_white_def painted_append by (metis Un_iff set_append)

lemma paints_white_concat:
  "(\<And>x. x \<in> set xss \<Longrightarrow> paints_white x) \<Longrightarrow> paints_white (concat xss)"
  by (induction xss) (simp_all add: paints_white_append, simp add: paints_white_def)

lemma paints_white_cell: "paints_white (render_cell cs row col v)"
  by (simp add: paints_white_def render_cell_eq white_def)

lemma paints_white_rows: "paints_white (render_rows cs g 0)"
  unfolding render_rows_concat render_cols_concat
  by (intro paints_white_concat) (auto intro!: paints_white_concat paints_white_cell)

lemma paints_white_render: "paints_white (render cs g)"
  unfolding render_def
  by (intro paints_white_append paints_white_rows) (simp_all add: paints_white_def)

lemma no_gray_render: "SDL_SetRenderDrawColor 50 50 50 255 \<notin> set (render cs g)"
  by (auto simp: render_def render_rows_concat render_cols_concat render_cell_eq split: if_splits)

lemma cell_fill_iff:
  "(\<exists>rect. SDL_RenderFillRect rect \<in> set (render_cell cs row col v)) = (v = 1)"
  by (simp add: render_cell_eq)

lemma fill_in_render:
  "SDL_RenderFillRect rect \<in> set (render cs g) \<longleftrightarrow>
   (\<exists>row < length g. \<exists>col < length (g ! row).
      g ! row ! col = 1 \<and> rect = cell_rect cs row col)"
proof -
  have "SDL_RenderFillRect rect \<in> set (render cs g) \<longleftrightarrow>
        SDL_RenderFillRect rect \<in> set (filter is_fill (render cs g))"
    by simp
  also have "\<dots> \<longleftrightarrow> (\<exists>row < length g. \<exists>col < length (g ! row).
      g ! row ! col = 1 \<and> rect = cell_rect cs row col)"
    unfolding filter_fill_render by (simp add: image_iff Bex_def) blast
  finally show ?thesis .
qed

lemma render_fill_iff:
  "(\<exists>rect. SDL_RenderFillRect rect \<in> set (render cs g)) =
   (\<exists>row < length g. \<exists>col < length (g ! row). g ! row ! col = 1)"
  unfolding fill_in_render by blast


text \<open>
  C2. A cell is alive for the renderer exactly when its state is 1: the loop body issues a
  fill-rectangle call for a cell if and only if the cell's state equals 1 (0 and every
  other value are skipped), and so a render issues a fill-rectangle call if and only if
  some cell of the grid holds 1.
\<close>

theorem render_alive_iff_one:
  "((\<exists>rect. SDL_RenderFillRect rect \<in> set (render_cell cellSize row col v)) = (v = 1)) \<and>
   ((\<exists>rect. SDL_RenderFillRect rect \<in> set (render cellSize g)) =
     (\<exists>row < length g. \<exists>col < length (g ! row). g ! row ! col = 1))"
  using cell_fill_iff render_fill_iff by blast

text \<open>
  C3. A render walks the grid in row-major order and its fill-rectangle calls are exactly
  one call per cell holding 1, in that order, and none for any other cell. The rectangle
  of the cell at \<open>(row, col)\<close> has width and height \<open>cellSize\<close> and its corner at
  \<open>(col * cellSize, row * cellSize)\<close>, the products taken in the 32-bit \<^verbatim>\<open>int\<close> of
  the rectangle's fields; where a product fits into an \<^verbatim>\<open>int\<close> the field holds
  the product itself.
\<close>

theorem render_one_fill_per_live_cell:
  "filter is_fill (render cellSize g) =
     concat (map (\<lambda>row. map (\<lambda>col. SDL_RenderFillRect (cell_rect cellSize row col))
                            (filter (\<lambda>col. g ! row ! col = 1) [0..<length (g ! row)]))
                 [0..<length g]) \<and>
   rect_w (cell_rect cellSize row col) = cellSize \<and>
   rect_h (cell_rect cellSize row col) = cellSize \<and>
   rect_x (cell_rect cellSize row col) = of_nat col * cellSize \<and>
   rect_y (cell_rect cellSize row col) = of_nat row * cellSize \<and>
   (- (2 ^ 31) \<le> int col * sint cellSize \<and> int col * sint cellSize < 2 ^ 31 \<longrightarrow>
      sint (rect_x (cell_rect cellSize row col)) = int col * sint cellSize) \<and>
   (- (2 ^ 31) \<le> int row * sint cellSize \<and> int row * sint cellSize < 2 ^ 31 \<longrightarrow>
      sint (rect_y (cell_rect cellSize row col)) = int row * sint cellSize)"
proof -
  have "rect_x (cell_rect cellSize row col) = of_nat col * cellSize"
    and "rect_y (cell_rect cellSize row col) = of_nat row * cellSize"
    and "rect_w (cell_rect cellSize row col) = cellSize"
    and "rect_h (cell_rect cellSize row col) = cellSize"
    by (simp_all add: cell_rect_def)
  then show ?thesis
    using filter_fill_render [of cellSize g] sint_scale [of col cellSize]
      sint_scale [of row cellSize]
    by presburger
qed

theorem render_one_fill_per_live_cell_witness:
  "filter is_fill (render 10 [[0, 1], [1, 2, 1]]) =
     [SDL_RenderFillRect \<lparr>rect_x = 10, rect_y = 0, rect_w = 10, rect_h = 10\<rparr>,
      SDL_RenderFillRect \<lparr>rect_x = 0, rect_y = 10, rect_w = 10, rect_h = 10\<rparr>,
      SDL_RenderFillRect \<lparr>rect_x = 20, rect_y = 10, rect_w = 10, rect_h = 10\<rparr>] \<and>
   - (2 ^ 31) \<le> int 2 * sint (10 :: int32) \<and> int 2 * sint (10 :: int32) < 2 ^ 31 \<and>
   sint (rect_x (cell_rect 10 1 2)) = 20 \<and>
   sint (rect_y (cell_rect 10 1 2)) = 10"
proof -
  have e: "filter is_fill (render 10 [[0, 1], [1, 2, 1]]) =
     [SDL_RenderFillRect \<lparr>rect_x = 10, rect_y = 0, rect_w = 10, rect_h = 10\<rparr>,
      SDL_RenderFillRect \<lparr>rect_x = 0, rect_y = 10, rect_w = 10, rect_h = 10\<rparr>,
      SDL_RenderFillRect \<lparr>rect_x = 20, rect_y = 10, rect_w = 10, rect_h = 10\<rparr>]"
    by code_simp
  have r: "- (2 ^ 31) \<le> int 2 * sint (10 :: int32) \<and> int 2 * sint (10 :: int32) < 2 ^ 31"
    "- (2 ^ 31) \<le> int 1 * sint (10 :: int32) \<and> int 1 * sint (10 :: int32) < 2 ^ 31"
    by simp_all
  show ?thesis
    using render_one_fill_per_live_cell [of 10 "[[0, 1], [1, 2, 1]]" 1 2] r
    by (simp only: e) simp
qed

text \<open>
  C8. The inner test of the loop body repeats the outer one, so the branch that selects
  dark gray is never taken: the body issues either nothing or the white colour followed by
  the fill, no render ever selects the colour \<open>(50, 50, 50, 255)\<close>, and every rectangle
  a render paints is painted white, whatever the draw colour was before.
\<close>

theorem render_dead_branch_unreachable:
  "render_cell cellSize row col v =
     (if v = 1 then [SDL_SetRenderDrawColor 255 255 255 255,
                     SDL_RenderFillRect (cell_rect cellSize row col)]
      else []) \<and>
   SDL_SetRenderDrawColor 50 50 50 255 \<notin> set (render cellSize g) \<and>
   (\<forall>p \<in> set (painted c (render cellSize g)). snd p = (255, 255, 255, 255))"
proof -
  have "\<forall>p \<in> set (painted c (render cellSize g)). snd p = white"
    using paints_white_render [of cellSize g] unfolding paints_white_def by blast
  then show ?thesis
    using render_cell_eq [of cellSize row col v] no_gray_render [of cellSize g]
    by (simp add: white_def)
qed

theorem render_dead_branch_unreachable_witness:
  "(\<lparr>rect_x = 10, rect_y = 0, rect_w = 10, rect_h = 10\<rparr>, (255, 255, 255, 255))
     \<in> set (painted (0, 0, 0, 0) (render 10 [[0, 1]])) \<and>
   snd (hd (painted (0, 0, 0, 0) (render 10 [[0, 1]]))) = (255, 255, 255, 255)"
proof -
  have e: "painted (0, 0, 0, 0) (render 10 [[0, 1]]) =
    [(\<lparr>rect_x = 10, rect_y = 0, rect_w = 10, rect_h = 10\<rparr>, (255, 255, 255, 255))]"
    by code_simp
  show ?thesis
    using render_dead_branch_unreachable [of 10 0 0 0 "[[0, 1]]" "(0, 0, 0, 0)"]
    by (simp only: e) simp
qed

subsection \<open>The step of the automaton\<close>

lemma step_nth:
  "r < length g \<Longrightarrow> c < length (g ! r) \<Longrightarrow>
   step edge g ! r ! c = conway_rule (g ! r ! c) (live_neighbours edge g r c)"
  by (simp add: step_def)

lemma step_dims: "map length (step edge g) = map length g"
  by (rule nth_equalityI) (simp_all add: step_def)

lemma step_funpow_dims: "map length ((step edge ^^ n) g) = map length g"
  by (induction n) (simp_all add: step_dims)

text \<open>
  C1. The step produces the next generation by Conway's rule: the next state of every
  cell is the rule applied to the cell's current state and its number of live neighbours,
  so two cells with the same state and the same count have the same next state; the rule
  gives 1 to a live cell with two or three live neighbours (survival) and to a dead cell
  with exactly three (birth), and 0 otherwise (death).
\<close>

theorem step_applies_conway_rule:
  "(r < length g \<and> c < length (g ! r) \<longrightarrow>
      step edge g ! r ! c = conway_rule (g ! r ! c) (live_neighbours edge g r c)) \<and>
   (r < length g \<and> c < length (g ! r) \<and> r' < length g' \<and> c' < length (g' ! r') \<and>
    g' ! r' ! c' = g ! r ! c \<and> live_neighbours edge g' r' c' = live_neighbours edge g r c \<longrightarrow>
      step edge g' ! r' ! c' = step edge g ! r ! c) \<and>
   (conway_rule s n = 1 \<longleftrightarrow> (s = 1 \<and> (n = 2 \<or> n = 3)) \<or> (s \<noteq> 1 \<and> n = 3)) \<and>
   (conway_rule s n = 0 \<longleftrightarrow> \<not> ((s = 1 \<and> (n = 2 \<or> n = 3)) \<or> (s \<noteq> 1 \<and> n = 3)))"
  by (simp add: step_nth conway_rule_def)

theorem step_applies_conway_rule_witness:
  "(1::nat) < length [[0, 1, 0], [0, 1, 0], [0, 1, 0 :: int32]] \<and>
   (0::nat) < length ([[0, 1, 0], [0, 1, 0], [0, 1, 0 :: int32]] ! 1) \<and>
   live_neighbours bounded [[0, 1, 0], [0, 1, 0], [0, 1, 0]] 1 0 = 3 \<and>
   step bounded [[0, 1, 0], [0, 1, 0], [0, 1, 0]] ! 1 ! 0 = 1 \<and>
   step bounded [[0, 1, 0], [0, 1, 0], [0, 1, 0]] = [[0, 0, 0], [1, 1, 1], [0, 0, 0]]"
proof -
  have n: "live_neighbours bounded [[0, 1, 0], [0, 1, 0], [0, 1, 0]] 1 0 = 3"
    by code_simp
  have s: "step bounded [[0, 1, 0], [0, 1, 0], [0, 1, 0]] = [[0, 0, 0], [1, 1, 1], [0, 0, 0]]"
    by code_simp
  show ?thesis
    using step_applies_conway_rule [of 1 "[[0, 1, 0], [0, 1, 0], [0, 1, 0]]" 0 bounded]
    by (simp only: n s) simp
qed

text \<open>
  C7. The dimensions of the grid are fixed: after one step, and after any number of
  steps, the grid has the same number of rows and every row has the same length as
  before.
\<close>

theorem step_keeps_dimensions:
  "map length (step edge g) = map length g \<and>
   length (step edge g) = length g \<and>
   map length ((step edge ^^ n) g) = map length g"
proof -
  have "length (step edge g) = length g" by (simp add: step_def)
  then show ?thesis
    using step_dims [of edge g] step_funpow_dims [of n edge g] by simp
qed

subsection \<open>The merge of the defaults\<close>

lemma map_of_obj_put: "map_of (obj_put key v kvs) = (map_of kvs)(key \<mapsto> v)"
  by (induction key v kvs rule: obj_put.induct) (auto simp: fun_eq_iff)

lemma merge_object:
  "\<exists>res. merge_defaults ds (JObject kvs) = Inr (JObject res) \<and>
         map_of res = map_of ds ++ map_of kvs"
proof (induction ds arbitrary: kvs)
  case Nil
  then show ?case by simp
next
  case (Cons d ds)
  obtain key v where d: "d = (key, v)" by (cases d)
  show ?case
  proof (cases "map_of kvs key")
    case None
    obtain res where r: "merge_defaults ds (JObject (obj_put key v kvs)) = Inr (JObject res)"
      "map_of res = map_of ds ++ map_of (obj_put key v kvs)"
      using Cons.IH by blast
    have m: "merge_defaults (d # ds) (JObject kvs) =
             merge_defaults ds (JObject (obj_put key v kvs))"
      using None by (simp add: d)
    have "map_of ds ++ map_of (obj_put key v kvs) = map_of (d # ds) ++ map_of kvs"
      using None by (auto simp: d map_of_obj_put fun_eq_iff map_add_def split: option.splits)
    then show ?thesis unfolding m using r by (intro exI [of _ res]) (simp only:)
  next
    case (Some w)
    obtain res where r: "merge_defaults ds (JObject kvs) = Inr (JObject res)"
      "map_of res = map_of ds ++ map_of kvs"
      using Cons.IH by blast
    have m: "merge_defaults (d # ds) (JObject kvs) = merge_defaults ds (JObject kvs)"
      using Some by (simp add: d)
    have "map_of ds ++ map_of kvs = map_of (d # ds) ++ map_of kvs"
      using Some by (auto simp: d fun_eq_iff map_add_def split: option.splits)
    then show ?thesis unfolding m using r by (intro exI [of _ res]) (simp only:)
  qed
qed

lemma merge_null:
  "\<exists>res. merge_defaults (d # ds) JNull = Inr (JObject res) \<and> map_of res = map_of (d # ds)"
proof -
  obtain key v where d: "d = (key, v)" by (cases d)
  obtain res where r: "merge_defaults ds (JObject [(key, v)]) = Inr (JObject res)"
      "map_of res = map_of ds ++ map_of [(key, v)]"
    using merge_object by blast
  have m: "merge_defaults (d # ds) JNull = merge_defaults ds (JObject [(key, v)])"
    by (simp add: d)
  have "map_of ds ++ map_of [(key, v)] = map_of (d # ds)"
    by (auto simp: d fun_eq_iff map_add_def split: option.splits)
  then show ?thesis unfolding m using r by (intro exI [of _ res]) (simp only:)
qed


text \<open>
  C10. When the parsed arguments are a JSON object (or null, for no arguments), the merge
  loop completes, and afterwards the parameters hold every key of the defaults (width,
  height, generations, cellSize, frameDelayMs); every key the user supplied keeps the
  user's value, and a key the user did not supply has its default value (and stays absent
  when it is no default key).
\<close>

theorem merge_defaults_keeps_user_values:
  assumes "params = JNull \<or> (\<exists>kvs. params = JObject kvs)"
  shows "\<exists>res. merge_defaults defaults params = Inr (JObject res) \<and>
           (\<forall>key \<in> {''width'', ''height'', ''generations'', ''cellSize'', ''frameDelayMs''}.
              json_find (JObject res) key \<noteq> None) \<and>
           (\<forall>key v. json_find params key = Some v \<longrightarrow> json_find (JObject res) key = Some v) \<and>
           (\<forall>key. json_find params key = None \<longrightarrow>
              json_find (JObject res) key = map_of defaults key)"
proof -
  have "\<exists>res. merge_defaults defaults params = Inr (JObject res) \<and>
          map_of res = map_of defaults ++ (\<lambda>key. json_find params key)"
  proof (cases params)
    case JNull
    have "(\<lambda>key. json_find JNull key) = Map.empty" by (simp add: fun_eq_iff)
    then show ?thesis
      using merge_null [of "hd defaults" "tl defaults"] by (simp add: JNull defaults_def)
  next
    case (JObject kvs)
    have "(\<lambda>key. json_find (JObject kvs) key) = map_of kvs" by (simp add: fun_eq_iff)
    then show ?thesis using merge_object [of defaults kvs] by (simp add: JObject)
  qed (use assms in simp_all)
  then obtain res where r: "merge_defaults defaults params = Inr (JObject res)"
    and m: "map_of res = map_of defaults ++ (\<lambda>key. json_find params key)"
    by blast
  have k: "\<forall>key \<in> {''width'', ''height'', ''generations'', ''cellSize'', ''frameDelayMs''}.
             map_of defaults key \<noteq> None"
    by (simp add: defaults_def)
  have "\<forall>key \<in> {''width'', ''height'', ''generations'', ''cellSize'', ''frameDelayMs''}.
          json_find (JObject res) key \<noteq> None"
    using k by (auto simp: m map_add_def split: option.splits)
  moreover have "\<forall>key v. json_find params key = Some v \<longrightarrow>
                   json_find (JObject res) key = Some v"
    by (simp add: m map_add_def)
  moreover have "\<forall>key. json_find params key = None \<longrightarrow>
                   json_find (JObject res) key = map_of defaults key"
    by (simp add: m map_add_def)
  ultimately show ?thesis using r by blast
qed

theorem merge_defaults_keeps_user_values_witness:
  "merge_defaults defaults (JObject [(''width'', JInt 3), (''speed'', JNull)]) =
     Inr (JObject [(''width'', JInt 3), (''speed'', JNull), (''cellSize'', JInt 10),
                   (''frameDelayMs'', JInt 500), (''generations'', JInt 1000),
                   (''height'', JInt 600)]) \<and>
   json_find (JObject [(''width'', JInt 3), (''speed'', JNull)]) ''width'' = Some (JInt 3)"
proof -
  have "JObject [(''width'', JInt 3), (''speed'', JNull)] = JNull \<or>
        (\<exists>kvs. JObject [(''width'', JInt 3), (''speed'', JNull)] = JObject kvs)"
    by simp
  from merge_defaults_keeps_user_values [OF this] show ?thesis
    by (simp add: defaults_def)
qed

subsection \<open>The centring of the shape\<close>

lemma sint_checked: "checked k = Some w \<Longrightarrow> sint w = k"
  by (auto simp: checked_def in_int_def sint_sbintrunc' signed_take_bit_int_eq_self
           split: if_splits)

lemma checked_Some: "in_int k \<Longrightarrow> \<exists>w. checked k = Some w \<and> sint w = k"
  by (simp add: checked_def in_int_def sint_sbintrunc' signed_take_bit_int_eq_self)

lemma in_int_sint: "in_int (sint (w :: int32))"
  using sint_range_size [of w] by (simp add: in_int_def word_size)

lemma sint_int_min: "sint (int_min a b) = min (sint a) (sint b)"
  by (simp add: int_min_def)

lemma sint_int_max: "sint (int_max a b) = max (sint a) (sint b)"
  by (simp add: int_max_def)

lemma Min_insert_min:
  "finite S \<Longrightarrow> Min (insert (min a c) S) = Min (insert a (insert c S))" for a :: int
  by (cases "S = {}") (simp_all add: min.assoc)

lemma Max_insert_max:
  "finite S \<Longrightarrow> Max (insert (max a c) S) = Max (insert a (insert c S))" for a :: int
  by (cases "S = {}") (simp_all add: max.assoc)

lemma bounds_loop_min_max:
  "sint (minX (bounds_loop cells b)) = Min (insert (sint (minX b)) ((sint \<circ> cell_x) ` set cells)) \<and>
   sint (maxX (bounds_loop cells b)) = Max (insert (sint (maxX b)) ((sint \<circ> cell_x) ` set cells)) \<and>
   sint (minY (bounds_loop cells b)) = Min (insert (sint (minY b)) ((sint \<circ> cell_y) ` set cells)) \<and>
   sint (maxY (bounds_loop cells b)) = Max (insert (sint (maxY b)) ((sint \<circ> cell_y) ` set cells))"
proof (induction cells arbitrary: b)
  case Nil
  then show ?case by simp
next
  case (Cons cell cells)
  show ?case
    by (simp only: bounds_loop.simps Cons.IH)
       (simp add: sint_int_min sint_int_max Min_insert_min Max_insert_max)
qed

lemma bounding_box_correct:
  assumes "cells = first # rest"
  shows "sint (minX (bounds_loop cells (first_bounds first))) = Min ((sint \<circ> cell_x) ` set cells)"
    and "sint (maxX (bounds_loop cells (first_bounds first))) = Max ((sint \<circ> cell_x) ` set cells)"
    and "sint (minY (bounds_loop cells (first_bounds first))) = Min ((sint \<circ> cell_y) ` set cells)"
    and "sint (maxY (bounds_loop cells (first_bounds first))) = Max ((sint \<circ> cell_y) ` set cells)"
  using bounds_loop_min_max [of cells "first_bounds first"]
  by (simp_all add: assms first_bounds_def)

lemma center_shape_Some:
  assumes "center_shape gridWidth gridHeight cells = Some r"
  shows "\<exists>first rest. cells = first # rest \<and> box r = bounds_loop cells (first_bounds first)"
    and "sint (patternWidth r) = sint (maxX (box r)) - sint (minX (box r)) + 1"
    and "sint (patternHeight r) = sint (maxY (box r)) - sint (minY (box r)) + 1"
    and "sint (offsetX r) = (sint gridWidth - sint (patternWidth r)) sdiv 2 - sint (minX (box r))"
    and "sint (offsetY r) = (sint gridHeight - sint (patternHeight r)) sdiv 2 - sint (minY (box r))"
  using assms
  by (auto simp: center_shape_def first_bounds_def Let_def int_add_def int_sub_def int_div_def
           bind_eq_Some_conv dest!: sint_checked split: list.splits if_splits)

lemma sdiv_two_balance: "\<bar>2 * (d sdiv 2) - d\<bar> \<le> 1" for d :: int
  by (cases "0 \<le> d") (auto simp: signed_divide_int_def sgn_if)


lemma sdiv_two_abs: "2 * \<bar>d sdiv 2\<bar> \<le> \<bar>d\<bar>" for d :: int
  by (cases "0 \<le> d") (auto simp: signed_divide_int_def sgn_if)

lemma int_sub_Some:
  "in_int (sint a - sint b) \<Longrightarrow> \<exists>w. int_sub a b = Some w \<and> sint w = sint a - sint b"
  unfolding int_sub_def by (rule checked_Some)

lemma int_add_Some:
  "in_int (sint a + sint b) \<Longrightarrow> \<exists>w. int_add a b = Some w \<and> sint w = sint a + sint b"
  unfolding int_add_def by (rule checked_Some)

lemma int_div_two_Some: "\<exists>w. int_div a 2 = Some w \<and> sint w = sint a sdiv 2"
proof -
  have "in_int (sint a)" by (rule in_int_sint)
  then have "in_int (sint a sdiv 2)"
    using sdiv_two_abs [of "sint a"] by (simp add: in_int_def, linarith)
  then show ?thesis by (simp add: int_div_def checked_Some)
qed

lemma axis_defined:
  assumes "\<bar>sint lo\<bar> \<le> 2 ^ 29" "\<bar>sint hi\<bar> \<le> 2 ^ 29" "\<bar>sint n\<bar> \<le> 2 ^ 29"
  shows "\<exists>d p f h off. int_sub hi lo = Some d \<and> int_add d 1 = Some p \<and> int_sub n p = Some f \<and>
                       int_div f 2 = Some h \<and> int_sub h lo = Some off"
proof -
  have "in_int (sint hi - sint lo)"
    using assms by (simp add: in_int_def abs_le_iff)
  then obtain d where d: "int_sub hi lo = Some d" "sint d = sint hi - sint lo"
    using int_sub_Some [of hi lo] by blast
  have "in_int (sint d + sint (1 :: int32))"
    using assms d by (simp add: in_int_def abs_le_iff)
  then obtain p where p: "int_add d 1 = Some p" "sint p = sint d + 1"
    using int_add_Some [of d 1] by auto
  have "in_int (sint n - sint p)"
    using assms d p by (simp add: in_int_def abs_le_iff)
  then obtain f where f: "int_sub n p = Some f" "sint f = sint n - sint p"
    using int_sub_Some [of n p] by blast
  obtain h where h: "int_div f 2 = Some h" "sint h = sint f sdiv 2"
    using int_div_two_Some [of f] by blast
  have "2 * \<bar>sint h\<bar> \<le> \<bar>sint f\<bar>" using sdiv_two_abs [of "sint f"] h by simp
  then have "in_int (sint h - sint lo)"
    using assms d p f by (simp add: in_int_def, linarith)
  then obtain off where "int_sub h lo = Some off"
    using int_sub_Some [of h lo] by blast
  then show ?thesis using d p f h by blast
qed


lemma center_shape_defined:
  assumes ne: "cells \<noteq> []"
    and cs: "\<forall>c \<in> set cells. \<bar>sint (cell_x c)\<bar> \<le> 2 ^ 29 \<and> \<bar>sint (cell_y c)\<bar> \<le> 2 ^ 29"
    and g: "\<bar>sint gridWidth\<bar> \<le> 2 ^ 29" "\<bar>sint gridHeight\<bar> \<le> 2 ^ 29"
  shows "center_shape gridWidth gridHeight cells \<noteq> None"
proof -
  obtain first rest where c: "cells = first # rest" using ne by (cases cells) auto
  define b where "b = bounds_loop (first # rest) (first_bounds first)"
  have fin: "finite ((sint \<circ> cell_x) ` set cells)" "(sint \<circ> cell_x) ` set cells \<noteq> {}"
    "finite ((sint \<circ> cell_y) ` set cells)" "(sint \<circ> cell_y) ` set cells \<noteq> {}"
    using ne by simp_all
  have small: "\<forall>v \<in> (sint \<circ> cell_x) ` set cells. \<bar>v\<bar> \<le> 2 ^ 29"
    "\<forall>v \<in> (sint \<circ> cell_y) ` set cells. \<bar>v\<bar> \<le> 2 ^ 29"
    using cs by auto
  have "\<bar>sint (minX b)\<bar> \<le> 2 ^ 29" "\<bar>sint (maxX b)\<bar> \<le> 2 ^ 29"
    "\<bar>sint (minY b)\<bar> \<le> 2 ^ 29" "\<bar>sint (maxY b)\<bar> \<le> 2 ^ 29"
    unfolding b_def c [symmetric] bounding_box_correct [OF c]
    using Min_in [OF fin(1,2)] Max_in [OF fin(1,2)] Min_in [OF fin(3,4)] Max_in [OF fin(3,4)]
      small by blast+
  then obtain dx pw fx hx ox dy ph fy hy oy where
    "int_sub (maxX b) (minX b) = Some dx" "int_add dx 1 = Some pw"
    "int_sub gridWidth pw = Some fx" "int_div fx 2 = Some hx" "int_sub hx (minX b) = Some ox"
    "int_sub (maxY b) (minY b) = Some dy" "int_add dy 1 = Some ph"
    "int_sub gridHeight ph = Some fy" "int_div fy 2 = Some hy" "int_sub hy (minY b) = Some oy"
    using axis_defined [of "minX b" "maxX b" gridWidth]
      axis_defined [of "minY b" "maxY b" gridHeight] g by blast
  then show ?thesis
    by (simp add: center_shape_def c b_def [symmetric] Let_def del: bounds_loop.simps)
qed

text \<open>
  C9. The centring computation reads the first cell without a check, so it is undefined
  for a shape with no cell. For a shape with at least one cell the loop leaves in
  \<^verbatim>\<open>minX\<close>, \<^verbatim>\<open>maxX\<close>, \<^verbatim>\<open>minY\<close> and \<^verbatim>\<open>maxY\<close> the minimum and maximum x and y
  over all cells. Whenever the computation is defined the shape has a cell, the bounds
  are these, the pattern's width and height are those of the bounding box, and the
  offsets put the box in the middle of the grid: the free columns to its left and to its
  right differ by at most one, and so do the free rows above and below (the division by
  two truncates). It is defined for every non-empty shape whose coordinates, like the
  grid dimensions, are at most \<open>2^29\<close> in absolute value, where no operation leaves the
  range of \<^verbatim>\<open>int\<close>.
\<close>

theorem center_shape_bounding_box:
  "center_shape gridWidth gridHeight [] = None \<and>
   (cells \<noteq> [] \<longrightarrow>
      sint (minX (bounds_loop cells (first_bounds (hd cells)))) =
        Min ((sint \<circ> cell_x) ` set cells) \<and>
      sint (maxX (bounds_loop cells (first_bounds (hd cells)))) =
        Max ((sint \<circ> cell_x) ` set cells) \<and>
      sint (minY (bounds_loop cells (first_bounds (hd cells)))) =
        Min ((sint \<circ> cell_y) ` set cells) \<and>
      sint (maxY (bounds_loop cells (first_bounds (hd cells)))) =
        Max ((sint \<circ> cell_y) ` set cells)) \<and>
   (center_shape gridWidth gridHeight cells = Some r \<longrightarrow>
      cells \<noteq> [] \<and>
      sint (minX (box r)) = Min ((sint \<circ> cell_x) ` set cells) \<and>
      sint (maxX (box r)) = Max ((sint \<circ> cell_x) ` set cells) \<and>
      sint (minY (box r)) = Min ((sint \<circ> cell_y) ` set cells) \<and>
      sint (maxY (box r)) = Max ((sint \<circ> cell_y) ` set cells) \<and>
      sint (patternWidth r) = sint (maxX (box r)) - sint (minX (box r)) + 1 \<and>
      sint (patternHeight r) = sint (maxY (box r)) - sint (minY (box r)) + 1 \<and>
      sint (offsetX r) =
        (sint gridWidth - sint (patternWidth r)) sdiv 2 - sint (minX (box r)) \<and>
      sint (offsetY r) =
        (sint gridHeight - sint (patternHeight r)) sdiv 2 - sint (minY (box r)) \<and>
      \<bar>(sint (minX (box r)) + sint (offsetX r)) -
       (sint gridWidth - 1 - (sint (maxX (box r)) + sint (offsetX r)))\<bar> \<le> 1 \<and>
      \<bar>(sint (minY (box r)) + sint (offsetY r)) -
       (sint gridHeight - 1 - (sint (maxY (box r)) + sint (offsetY r)))\<bar> \<le> 1) \<and>
   (cells \<noteq> [] \<and>
    (\<forall>c \<in> set cells. \<bar>sint (cell_x c)\<bar> \<le> 2 ^ 29 \<and> \<bar>sint (cell_y c)\<bar> \<le> 2 ^ 29) \<and>
    \<bar>sint gridWidth\<bar> \<le> 2 ^ 29 \<and> \<bar>sint gridHeight\<bar> \<le> 2 ^ 29 \<longrightarrow>
      center_shape gridWidth gridHeight cells \<noteq> None)"
proof (intro conjI impI)
  show "center_shape gridWidth gridHeight [] = None"
    by (simp add: center_shape_def)
next
  assume "cells \<noteq> []"
  then have c: "cells = hd cells # tl cells" by simp
  note hb = bounding_box_correct [OF c]
  show "sint (minX (bounds_loop cells (first_bounds (hd cells)))) =
        Min ((sint \<circ> cell_x) ` set cells)" by (rule hb)
  show "sint (maxX (bounds_loop cells (first_bounds (hd cells)))) =
        Max ((sint \<circ> cell_x) ` set cells)" by (rule hb)
  show "sint (minY (bounds_loop cells (first_bounds (hd cells)))) =
        Min ((sint \<circ> cell_y) ` set cells)" by (rule hb)
  show "sint (maxY (bounds_loop cells (first_bounds (hd cells)))) =
        Max ((sint \<circ> cell_y) ` set cells)" by (rule hb)
next
  assume s: "center_shape gridWidth gridHeight cells = Some r"
  obtain first rest where c: "cells = first # rest"
    and b: "box r = bounds_loop cells (first_bounds first)"
    using center_shape_Some(1) [OF s] by blast
  note bb = bounding_box_correct [OF c, folded b]
  note cc = center_shape_Some(2-5) [OF s]
  show "cells \<noteq> []" by (simp add: c)
  show "sint (minX (box r)) = Min ((sint \<circ> cell_x) ` set cells)" by (rule bb)
  show "sint (maxX (box r)) = Max ((sint \<circ> cell_x) ` set cells)" by (rule bb)
  show "sint (minY (box r)) = Min ((sint \<circ> cell_y) ` set cells)" by (rule bb)
  show "sint (maxY (box r)) = Max ((sint \<circ> cell_y) ` set cells)" by (rule bb)
  show "sint (patternWidth r) = sint (maxX (box r)) - sint (minX (box r)) + 1" by (rule cc)
  show "sint (patternHeight r) = sint (maxY (box r)) - sint (minY (box r)) + 1" by (rule cc)
  show "sint (offsetX r) =
        (sint gridWidth - sint (patternWidth r)) sdiv 2 - sint (minX (box r))" by (rule cc)
  show "sint (offsetY r) =
        (sint gridHeight - sint (patternHeight r)) sdiv 2 - sint (minY (box r))" by (rule cc)
  show "\<bar>(sint (minX (box r)) + sint (offsetX r)) -
       (sint gridWidth - 1 - (sint (maxX (box r)) + sint (offsetX r)))\<bar> \<le> 1"
    using sdiv_two_balance [of "sint gridWidth - sint (patternWidth r)"] cc(1,3)
    by linarith
  show "\<bar>(sint (minY (box r)) + sint (offsetY r)) -
       (sint gridHeight - 1 - (sint (maxY (box r)) + sint (offsetY r)))\<bar> \<le> 1"
    using sdiv_two_balance [of "sint gridHeight - sint (patternHeight r)"] cc(2,4)
    by linarith
next
  assume "cells \<noteq> [] \<and>
    (\<forall>c \<in> set cells. \<bar>sint (cell_x c)\<bar> \<le> 2 ^ 29 \<and> \<bar>sint (cell_y c)\<bar> \<le> 2 ^ 29) \<and>
    \<bar>sint gridWidth\<bar> \<le> 2 ^ 29 \<and> \<bar>sint gridHeight\<bar> \<le> 2 ^ 29"
  then show "center_shape gridWidth gridHeight cells \<noteq> None"
    using center_shape_defined by blast
qed

theorem center_shape_bounding_box_witness:
  "center_shape 30 20 [\<lparr>cell_x = 1, cell_y = 0\<rparr>, \<lparr>cell_x = 2, cell_y = 1\<rparr>,
                       \<lparr>cell_x = 0, cell_y = 2\<rparr>] =
     Some \<lparr>box = \<lparr>minX = 0, maxX = 2, minY = 0, maxY = 2\<rparr>, patternWidth = 3,
           patternHeight = 3, offsetX = 13, offsetY = 8\<rparr> \<and>
   Min ((sint \<circ> cell_x) ` set [\<lparr>cell_x = 1, cell_y = 0\<rparr>, \<lparr>cell_x = 2, cell_y = 1\<rparr>,
                                 \<lparr>cell_x = 0 :: int32, cell_y = 2 :: int32\<rparr>]) = 0 \<and>
   Max ((sint \<circ> cell_y) ` set [\<lparr>cell_x = 1, cell_y = 0\<rparr>, \<lparr>cell_x = 2, cell_y = 1\<rparr>,
                                 \<lparr>cell_x = 0 :: int32, cell_y = 2 :: int32\<rparr>]) = 2"
proof -
  have e: "center_shape 30 20 [\<lparr>cell_x = 1, cell_y = 0\<rparr>, \<lparr>cell_x = 2, cell_y = 1\<rparr>,
                       \<lparr>cell_x = 0, cell_y = 2\<rparr>] =
     Some \<lparr>box = \<lparr>minX = 0, maxX = 2, minY = 0, maxY = 2\<rparr>, patternWidth = 3,
           patternHeight = 3, offsetX = 13, offsetY = 8\<rparr>"
    by code_simp
  from center_shape_bounding_box [of 30 20 _ _, THEN conjunct2, THEN conjunct2,
      THEN conjunct1, rule_format, OF e]
  show ?thesis using e by simp
qed

subsection \<open>The main loop of Program 04\<close>

lemma poll_events_running:
  "snd (poll_events ops click running es) = (running \<and> SDL_QUIT \<notin> set es)"
  by (induction es arbitrary: click running) auto

lemma pause_exits_iff: "pause_exits es = (SDL_QUIT \<in> set es)"
  by (induction es) auto

lemma sim_loop_body:
  "filter is_sim (loop_body ops click gol) = [Render (getGrid ops gol), Step, Pause 500]"
  by (simp add: loop_body_def)

lemma concat_map_upt_Suc:
  "concat (map f [0..<Suc n]) = f 0 @ concat (map (\<lambda>k. f (Suc k)) [0..<n])"
  by (simp only: upt_conv_Cons [of 0 "Suc n"] map_Suc_upt [symmetric])
     (simp add: comp_def)

lemma main_loop_sim:
  "filter is_sim (fst (main_loop ops fs click gol)) =
     concat (map (\<lambda>k. [Render (getGrid ops ((gol_step ops ^^ k) gol)), Step, Pause 500])
                 [0..<iterations fs]) \<and>
   snd (snd (main_loop ops fs click gol)) = (gol_step ops ^^ iterations fs) gol"
proof (induction fs arbitrary: click gol)
  case Nil
  then show ?case by simp
next
  case (Cons f fs)
  obtain click' running where p: "poll_events ops click True (main_events f) = (click', running)"
    by (cases "poll_events ops click True (main_events f)")
  have r: "running = (SDL_QUIT \<notin> set (main_events f))"
    using poll_events_running [of ops click True "main_events f"] p by simp
  show ?case
  proof (cases "SDL_QUIT \<in> set (pause_events f) \<or> SDL_QUIT \<in> set (main_events f)")
    case True
    then show ?thesis
      using p r by (auto simp: pause_exits_iff sim_loop_body Let_def)
  next
    case False
    obtain rest st gol'' where
      m: "main_loop ops fs click' (gol_step ops gol) = (rest, st, gol'')"
      by (cases "main_loop ops fs click' (gol_step ops gol)")
    have ih: "filter is_sim rest =
        concat (map (\<lambda>k. [Render (getGrid ops ((gol_step ops ^^ k) (gol_step ops gol))),
                            Step, Pause 500]) [0..<iterations fs])"
      "gol'' = (gol_step ops ^^ iterations fs) (gol_step ops gol)"
      using Cons.IH [of click' "gol_step ops gol"] m by simp_all
    have it: "iterations (f # fs) = Suc (iterations fs)" using False by simp
    show ?thesis
      unfolding it concat_map_upt_Suc
      using False p r m ih
      by (simp add: pause_exits_iff sim_loop_body Let_def funpow_swap1)
  qed
qed

text \<open>
  C4. Every iteration of the main loop performs, in this order, one render of the current
  grid, one step and one pause of 500 ms, and nothing else on the screen or the
  automaton: the renders, steps and pauses of a run are the triple (render, step, pause)
  once per iteration, the k-th render showing the grid after exactly k steps, and after
  the run the automaton has been stepped once per iteration. So the grid is stepped
  exactly once between two consecutive renders.
\<close>

theorem main_loop_render_step_pause:
  "filter is_sim (fst (main_loop ops fs click gol)) =
     concat (map (\<lambda>k. [Render (getGrid ops ((gol_step ops ^^ k) gol)), Step, Pause 500])
                 [0..<iterations fs]) \<and>
   snd (snd (main_loop ops fs click gol)) = (gol_step ops ^^ iterations fs) gol \<and>
   filter is_sim (loop_body ops click gol) = [Render (getGrid ops gol), Step, Pause 500]"
  using main_loop_sim [of ops fs click gol] sim_loop_body [of ops click gol] by simp

subsection \<open>The error exits of the grid example\<close>

lemma contains_member_at:
  "json_contains data key \<Longrightarrow> json_at data key = Inr (member data key)"
  by (cases data) simp_all

lemma iter_keys_listable: "(\<exists>keys. iter_keys j = Inr keys) = listable j"
  by (induction j rule: listable.induct) simp_all

lemma iter_keys_not_listable: "\<not> listable j \<Longrightarrow> iter_keys j = Inl (invalid_iterator 207)"
  by (induction j rule: listable.induct) simp_all

lemma select_shape_failure:
  "load_failure w \<Longrightarrow> \<exists>message. select_shape (shapes_file w) (cin_choice w) = Inl (fail1 message [])"
  by (auto simp: load_failure_def select_shape_def contains_member_at
           iter_keys_listable [symmetric] split: file_state.splits)

lemma select_shape_no_failure:
  assumes "\<not> load_failure w"
  shows "(\<exists>e. select_shape (shapes_file w) (cin_choice w) = Inl (uncaught e)) \<or>
         (\<exists>shape_json. select_shape (shapes_file w) (cin_choice w) = Inr shape_json)"
proof -
  obtain data where d: "shapes_file w = Parsed data" "json_contains data ''shapes''"
      and l: "listable (member data ''shapes'') \<longrightarrow>
              json_contains (member data ''shapes'') (cin_choice w)"
    using assms by (auto simp: load_failure_def split: file_state.splits)
  show ?thesis
  proof (cases "listable (member data ''shapes'')")
    case True
    then obtain keys where "iter_keys (member data ''shapes'') = Inr keys"
      using iter_keys_listable by blast
    then show ?thesis
      using d l True by (simp add: select_shape_def contains_member_at)
  next
    case False
    then show ?thesis
      using d by (auto simp: select_shape_def contains_member_at iter_keys_not_listable)
  qed
qed

lemma prepare_failure:
  "load_failure w \<Longrightarrow> \<exists>message. prepare w = Inl (fail1 message [])"
  using select_shape_failure [of w] by (auto simp: prepare_def)

lemma configure_Inl:
  "configure params sh = Inl r \<Longrightarrow> exit_status r \<noteq> Returned 1"
  by (auto simp: configure_def uncaught_def undefined_behaviour_def
           split: sum.splits option.splits)

lemma prepare_no_failure:
  assumes "\<not> load_failure w" "prepare w = Inl r"
  shows "exit_status r \<noteq> Returned 1"
  using select_shape_no_failure [OF assms(1)] assms(2) configure_Inl
  by (auto simp: prepare_def uncaught_def split: sum.splits)

lemma prepare_Inr: "prepare w = Inr cfg \<Longrightarrow> \<not> load_failure w"
  using prepare_failure [of w] by auto

lemma grid_loop_status: "snd (grid_loop cfg ts) \<noteq> Returned 1"
  by (induction ts) (auto simp: Let_def split: option.splits prod.splits)


lemma sdl_start_Inl:
  "sdl_start w cfg = Inl r \<Longrightarrow>
     exit_status r = Returned 1 \<and> length (cerr r) = 1 \<and>
     (\<not> sdl_init_ok w \<or> \<not> window_ok w \<or> \<not> renderer_ok w)"
  by (auto simp: sdl_start_def fail1_def split: if_splits)

lemma sdl_start_Inr:
  "sdl_start w cfg = Inr started \<Longrightarrow>
     sdl_init_ok w \<and> window_ok w \<and> renderer_ok w \<and>
     started = [SDL_Init, SDL_CreateWindow (cfg_windowWidth cfg) (cfg_windowHeight cfg),
                SDL_CreateRenderer]"
  by (auto simp: sdl_start_def split: if_splits)

lemma main_prepared:
  assumes "prepare w = Inr cfg"
  shows "exit_status (grid_example_main w) = Returned 1 \<longleftrightarrow>
           \<not> sdl_init_ok w \<or> \<not> window_ok w \<or> \<not> renderer_ok w"
proof (cases "sdl_start w cfg")
  case (Inl r)
  then show ?thesis
    using sdl_start_Inl [OF Inl] assms by (simp add: grid_example_main_def)
next
  case (Inr started)
  obtain calls st where g: "grid_loop cfg (ticks w) = (calls, st)"
    by (cases "grid_loop cfg (ticks w)")
  then have "st \<noteq> Returned 1" using grid_loop_status [of cfg "ticks w"] by simp
  then show ?thesis
    using sdl_start_Inr [OF Inr] assms Inr g by (simp add: grid_example_main_def)
qed

lemma main_returns_1_iff:
  "exit_status (grid_example_main w) = Returned 1 \<longleftrightarrow>
     load_failure w \<or>
     (\<exists>cfg. prepare w = Inr cfg \<and> (\<not> sdl_init_ok w \<or> \<not> window_ok w \<or> \<not> renderer_ok w))"
proof (cases "prepare w")
  case (Inl r)
  show ?thesis
  proof (cases "load_failure w")
    case True
    then show ?thesis
      using prepare_failure [OF True] by (auto simp: grid_example_main_def fail1_def)
  next
    case False
    then show ?thesis
      using prepare_no_failure [OF False Inl] Inl by (simp add: grid_example_main_def)
  qed
next
  case (Inr cfg)
  then show ?thesis
    using main_prepared [OF Inr] prepare_Inr [OF Inr] by simp
qed

lemma main_load_failure:
  assumes "load_failure w"
  shows "exit_status (grid_example_main w) = Returned 1 \<and>
         length (cerr (grid_example_main w)) = 1 \<and> sdl (grid_example_main w) = []"
  using prepare_failure [OF assms] by (auto simp: grid_example_main_def fail1_def)

lemma main_runs_loop:
  assumes "prepare w = Inr cfg" "sdl_init_ok w" "window_ok w" "renderer_ok w"
  shows "sdl (grid_example_main w) =
           [SDL_Init, SDL_CreateWindow (cfg_windowWidth cfg) (cfg_windowHeight cfg),
            SDL_CreateRenderer]
           @ fst (grid_loop cfg (ticks w))
           @ (if snd (grid_loop cfg (ticks w)) = Returned 0
              then [SDL_DestroyRenderer, SDL_DestroyWindow, SDL_Quit] else []) \<and>
         exit_status (grid_example_main w) = snd (grid_loop cfg (ticks w)) \<and>
         cerr (grid_example_main w) = []"
  using assms
  by (simp add: grid_example_main_def sdl_start_def split: prod.splits)

lemma main_exit_1_one_line:
  assumes "exit_status (grid_example_main w) = Returned 1"
  shows "length (cerr (grid_example_main w)) = 1"
proof (cases "load_failure w")
  case True
  then show ?thesis using main_load_failure by blast
next
  case False
  then obtain cfg where c: "prepare w = Inr cfg"
    and f: "\<not> sdl_init_ok w \<or> \<not> window_ok w \<or> \<not> renderer_ok w"
    using assms main_returns_1_iff [of w] by blast
  then obtain r where "sdl_start w cfg = Inl r"
    by (cases "sdl_start w cfg") (auto dest: sdl_start_Inr)
  then show ?thesis
    using sdl_start_Inl [of w cfg r] c by (simp add: grid_example_main_def)
qed

text \<open>
  C6, as the code has it. The load failures are checked before any SDL call: when
  \<^verbatim>\<open>shapes.json\<close> cannot be opened, cannot be parsed, has no top-level key \<open>shapes\<close>,
  or the entered name is not a key of \<open>shapes\<close> (the keys of \<open>shapes\<close> being
  listable), the program writes one error line, returns 1 and has called nothing of SDL.
  It returns 1, always with one error line, exactly in these cases and when the shape
  entry and the parameters have been read, and \<^verbatim>\<open>SDL_Init\<close>, the creation of the window
  or that of the renderer fails. When they have been read and the three succeed, the
  program initialises SDL, creates the window and the renderer and runs the loop.
\<close>

theorem load_failures_exit_before_sdl:
  "(load_failure w \<longrightarrow>
      exit_status (grid_example_main w) = Returned 1 \<and>
      length (cerr (grid_example_main w)) = 1 \<and>
      sdl (grid_example_main w) = []) \<and>
   (exit_status (grid_example_main w) = Returned 1 \<longleftrightarrow>
      load_failure w \<or>
      (\<exists>c. prepare w = Inr c \<and> (\<not> sdl_init_ok w \<or> \<not> window_ok w \<or> \<not> renderer_ok w))) \<and>
   (exit_status (grid_example_main w) = Returned 1 \<longrightarrow>
      length (cerr (grid_example_main w)) = 1) \<and>
   (prepare w = Inr cfg \<and> sdl_init_ok w \<and> window_ok w \<and> renderer_ok w \<longrightarrow>
      sdl (grid_example_main w) =
        [SDL_Init, SDL_CreateWindow (cfg_windowWidth cfg) (cfg_windowHeight cfg),
         SDL_CreateRenderer]
        @ fst (grid_loop cfg (ticks w))
        @ (if snd (grid_loop cfg (ticks w)) = Returned 0
           then [SDL_DestroyRenderer, SDL_DestroyWindow, SDL_Quit] else []) \<and>
      exit_status (grid_example_main w) = snd (grid_loop cfg (ticks w)) \<and>
      cerr (grid_example_main w) = [])"
  using main_load_failure [of w] main_returns_1_iff [of w] main_exit_1_one_line [of w]
    main_runs_loop [of w cfg]
  by blast

theorem load_failures_exit_before_sdl_witness:
  "load_failure (two_frames ''glider'') \<and>
   grid_example_main (two_frames ''glider'') =
     \<lparr>exit_status = Returned 1, cerr = [''Shape not found.''], sdl = []\<rparr> \<and>
   (\<exists>c. prepare (two_frames ''block'') = Inr c) \<and>
   sdl_init_ok (two_frames ''block'') \<and> window_ok (two_frames ''block'') \<and>
   renderer_ok (two_frames ''block'') \<and>
   exit_status (grid_example_main (two_frames ''block'')) = Returned 0 \<and>
   take 3 (sdl (grid_example_main (two_frames ''block''))) =
     [SDL_Init, SDL_CreateWindow 40 40, SDL_CreateRenderer]"
proof -
  have f: "load_failure (two_frames ''glider'')"
    by code_simp
  have g: "grid_example_main (two_frames ''glider'') =
     \<lparr>exit_status = Returned 1, cerr = [''Shape not found.''], sdl = []\<rparr>"
    by code_simp
  have p: "prepare (two_frames ''block'') =
     Inr \<lparr>cfg_shape =
            \<lparr>shape_name = ''block'', shape_width = 2, shape_height = 1,
             shape_cells = [\<lparr>cell_x = 0, cell_y = 0\<rparr>, \<lparr>cell_x = 1, cell_y = 0\<rparr>]\<rparr>,
          cfg_cellSize = 20, cfg_windowWidth = 40, cfg_windowHeight = 40,
          cfg_gridWidth = 2, cfg_gridHeight = 2,
          cfg_centre =
            \<lparr>box = \<lparr>minX = 0, maxX = 1, minY = 0, maxY = 0\<rparr>, patternWidth = 2,
             patternHeight = 1, offsetX = 0, offsetY = 0\<rparr>\<rparr>"
    by code_simp
  have o: "sdl_init_ok (two_frames ''block'')" "window_ok (two_frames ''block'')"
    "renderer_ok (two_frames ''block'')"
    by (simp_all add: two_frames_def)
  have s: "exit_status (grid_example_main (two_frames ''block'')) = Returned 0"
    by code_simp
  have "sdl (grid_example_main (two_frames ''glider'')) = []"
    using load_failures_exit_before_sdl [of "two_frames ''glider''"] f by blast
  moreover have "take 3 (sdl (grid_example_main (two_frames ''block''))) =
     [SDL_Init, SDL_CreateWindow 40 40, SDL_CreateRenderer]"
    using load_failures_exit_before_sdl [of "two_frames ''block''", THEN conjunct2,
        THEN conjunct2, THEN conjunct2, rule_format, OF conjI [OF p conjI [OF o(1)
        conjI [OF o(2) o(3)]]]]
    by simp
  ultimately show ?thesis using f g p o s by simp
qed

text \<open>
  The claim as it is stated lists, for the exit with status 1, the four load failures and
  the failed creation of the window or the renderer. With \<^verbatim>\<open>shapes.json\<close> in order
  and the name of a shape in it, a failing \<^verbatim>\<open>SDL_Init\<close> also ends the program with an
  error line and status 1; and for the entry \<open>bare\<close>, which has no \<open>size\<close>, none of the
  listed conditions holds and still no window is created: the conversion of null to
  \<^verbatim>\<open>int\<close> throws and nothing catches it.
\<close>

theorem load_failures_as_stated_counterexample:
  "exits_1_with_error (grid_example_main ((two_frames ''block'')\<lparr>sdl_init_ok := False\<rparr>)) \<and>
   \<not> name_not_loaded ((two_frames ''block'')\<lparr>sdl_init_ok := False\<rparr>) \<and>
   window_ok ((two_frames ''block'')\<lparr>sdl_init_ok := False\<rparr>) \<and>
   renderer_ok ((two_frames ''block'')\<lparr>sdl_init_ok := False\<rparr>) \<and>
   \<not> name_not_loaded (two_frames ''bare'') \<and>
   window_ok (two_frames ''bare'') \<and> renderer_ok (two_frames ''bare'') \<and>
   grid_example_main (two_frames ''bare'') =
     \<lparr>exit_status = Terminated (type_error 302), cerr = [], sdl = []\<rparr>"
proof -
  have "grid_example_main ((two_frames ''block'')\<lparr>sdl_init_ok := False\<rparr>) =
     \<lparr>exit_status = Returned 1, cerr = [''SDL Init Error: ''], sdl = [SDL_Init]\<rparr>"
    by code_simp
  then have "exits_1_with_error (grid_example_main ((two_frames ''block'')\<lparr>sdl_init_ok := False\<rparr>))"
    by (simp add: exits_1_with_error_def)
  moreover have "name_not_loaded ((two_frames ''block'')\<lparr>sdl_init_ok := False\<rparr>) = False"
    by code_simp
  moreover have "name_not_loaded (two_frames ''bare'') = False"
    by code_simp
  moreover have "grid_example_main (two_frames ''bare'') =
     \<lparr>exit_status = Terminated (type_error 302), cerr = [], sdl = []\<rparr>"
    by code_simp
  ultimately show ?thesis by (simp add: two_frames_def)
qed

subsection \<open>The frames of the grid example\<close>

declare lines_loop.simps [simp del]

lemma int_mul_Some_sint: "int_mul a b = Some c \<Longrightarrow> sint c = sint a * sint b"
  unfolding int_mul_def by (rule sint_checked)

lemma int_add_Some_sint: "int_add a b = Some c \<Longrightarrow> sint c = sint a + sint b"
  unfolding int_add_def by (rule sint_checked)

lemma lines_loop_no_fill:
  "lines_loop line cs lim v = Some ls \<Longrightarrow> (\<And>x. \<not> is_fill (line x)) \<Longrightarrow>
   filter is_fill ls = []"
proof (induction line cs lim v arbitrary: ls rule: lines_loop.induct)
  case (1 line cellSize limit v)
  show ?case
  proof (cases "cellSize \<noteq> 0 \<and> sint v \<le> sint limit")
    case True
    then obtain v' rest where a: "int_add v cellSize = Some v'"
      and r: "lines_loop line cellSize limit v' = Some rest" and l: "ls = line v # rest"
      using "1.prems"(1) by (subst (asm) lines_loop.simps) (auto split: option.splits)
    have "filter is_fill rest = []"
      using "1.IH" [of v' rest] True a r "1.prems"(2) by simp
    then show ?thesis using l "1.prems"(2) by simp
  next
    case False
    then show ?thesis
      using "1.prems"(1) by (subst (asm) lines_loop.simps) (auto split: if_splits)
  qed
qed

lemma shape_rects_cells:
  "shape_rects cs ox oy cells = Some rects \<Longrightarrow>
   filter is_fill rects = rects \<and> length rects = length cells \<and>
   (\<forall>i < length cells. \<exists>r. rects ! i = SDL_RenderFillRect r \<and>
       sint (rect_x r) = (sint (cell_x (cells ! i)) + sint ox) * sint cs \<and>
       sint (rect_y r) = (sint (cell_y (cells ! i)) + sint oy) * sint cs \<and>
       rect_w r = cs \<and> rect_h r = cs)"
proof (induction cells arbitrary: rects)
  case Nil
  then show ?case by simp
next
  case (Cons cell cells)
  from Cons.prems obtain sx px sy py rest where
    s: "int_add (cell_x cell) ox = Some sx" "int_mul sx cs = Some px"
       "int_add (cell_y cell) oy = Some sy" "int_mul sy cs = Some py"
       "shape_rects cs ox oy cells = Some rest"
    and r: "rects = SDL_RenderFillRect
              \<lparr>rect_x = px, rect_y = py, rect_w = cs, rect_h = cs\<rparr> # rest"
    by (auto simp: bind_eq_Some_conv)
  have px: "sint px = (sint (cell_x cell) + sint ox) * sint cs"
    using s(1,2) by (simp add: int_mul_Some_sint int_add_Some_sint)
  have py: "sint py = (sint (cell_y cell) + sint oy) * sint cs"
    using s(3,4) by (simp add: int_mul_Some_sint int_add_Some_sint)
  note ih = Cons.IH [OF s(5)]
  show ?case
  proof (intro conjI allI impI)
    show "filter is_fill rects = rects" using ih r by simp
    show "length rects = length (cell # cells)" using ih r by simp
    fix i assume "i < length (cell # cells)"
    then show "\<exists>r. rects ! i = SDL_RenderFillRect r \<and>
       sint (rect_x r) = (sint (cell_x ((cell # cells) ! i)) + sint ox) * sint cs \<and>
       sint (rect_y r) = (sint (cell_y ((cell # cells) ! i)) + sint oy) * sint cs \<and>
       rect_w r = cs \<and> rect_h r = cs"
      using ih r px py by (cases i) auto
  qed
qed

lemma draw_frame_fills:
  assumes "draw_frame cfg t = Some calls"
  shows "shape_fills cfg = Some (filter is_fill calls)"
proof -
  from assms obtain vertical horizontal rects where
    v: "lines_loop (\<lambda>x. SDL_RenderDrawLine x 0 x (cfg_windowHeight cfg))
          (cfg_cellSize cfg) (cfg_windowWidth cfg) 0 = Some vertical"
    and h: "lines_loop (\<lambda>y. SDL_RenderDrawLine 0 y (cfg_windowWidth cfg) y)
          (cfg_cellSize cfg) (cfg_windowHeight cfg) 0 = Some horizontal"
    and r: "shape_fills cfg = Some rects"
    and c: "calls = [SDL_SetRenderDrawColor 30 30 40 255, SDL_RenderClear,
              SDL_SetRenderDrawColor 80 80 100 255]
             @ vertical @ horizontal
             @ [SDL_SetRenderDrawColor (of_nat (rand_r t mod 256)) (of_nat (rand_g t mod 256))
                  (of_nat (rand_b t mod 256)) 255]
             @ rects
             @ [SDL_RenderPresent, SDL_Delay 16]"
    unfolding draw_frame_def shape_fills_def by (auto simp: bind_eq_Some_conv)
  have "filter is_fill vertical = []" by (rule lines_loop_no_fill [OF v]) simp
  moreover have "filter is_fill horizontal = []" by (rule lines_loop_no_fill [OF h]) simp
  moreover have "filter is_fill rects = rects"
    using shape_rects_cells r unfolding shape_fills_def by blast
  ultimately show ?thesis using r c by simp
qed

lemma grid_loop_fills:
  assumes "snd (grid_loop cfg ts) \<noteq> Undefined" "shape_fills cfg = Some rects"
  shows "filter is_fill (fst (grid_loop cfg ts)) = concat (replicate (frames_drawn ts) rects)"
  using assms(1)
proof (induction ts)
  case Nil
  then show ?case by simp
next
  case (Cons t ts)
  from Cons.prems obtain calls where d: "draw_frame cfg t = Some calls"
    by (auto simp: Let_def split: option.splits)
  have f: "filter is_fill calls = rects"
    using draw_frame_fills [OF d] assms(2) by simp
  show ?case
  proof (cases "poll_running True (tick_events t)")
    case True
    then have "snd (grid_loop cfg ts) \<noteq> Undefined"
      using Cons.prems d by (auto simp: Let_def split: prod.splits)
    then show ?thesis
      using Cons.IH True d f by (auto simp: Let_def split: prod.splits)
  next
    case False
    then show ?thesis using d f by (simp add: Let_def)
  qed
qed

lemma read_shape_Inr:
  assumes "read_shape choice shape_json = Inr sh"
  shows "shape_name sh = choice \<and>
         (\<exists>cells_json. json_at shape_json ''cells'' = Inr cells_json \<and>
            read_cells (json_items cells_json) = Inr (shape_cells sh))"
  using assms by (auto simp: read_shape_def split: sum.splits)

lemma configure_Inr:
  assumes "configure params sh = Inr cfg"
  shows "cfg_shape cfg = sh"
    and "param_or params ''cell_size'' 20 = Inr (cfg_cellSize cfg)"
    and "param_or params ''width'' 600 = Inr (cfg_windowWidth cfg)"
    and "param_or params ''height'' 400 = Inr (cfg_windowHeight cfg)"
    and "int_div (cfg_windowWidth cfg) (cfg_cellSize cfg) = Some (cfg_gridWidth cfg)"
    and "int_div (cfg_windowHeight cfg) (cfg_cellSize cfg) = Some (cfg_gridHeight cfg)"
    and "center_shape (cfg_gridWidth cfg) (cfg_gridHeight cfg) (shape_cells sh) =
           Some (cfg_centre cfg)"
  using assms
  by (auto simp: configure_def split: sum.splits option.splits)

lemma prepare_Inr_shape:
  assumes "prepare w = Inr cfg"
  shows "\<exists>shape_json. select_shape (shapes_file w) (cin_choice w) = Inr shape_json \<and>
           read_shape (cin_choice w) shape_json = Inr (cfg_shape cfg) \<and>
           configure (args w) (cfg_shape cfg) = Inr cfg"
  using assms
  by (auto simp: prepare_def split: sum.splits dest: configure_Inr(1))

lemma in_int_factor:
  assumes "1 \<le> c" "in_int (a * c)"
  shows "in_int a"
proof (cases "0 \<le> a")
  case True
  then have "a * 1 \<le> a * c" using assms(1) by (intro mult_left_mono) simp_all
  then have "a \<le> a * c" by (simp only: mult_1_right)
  then show ?thesis using True assms(2) unfolding in_int_def by linarith
next
  case False
  then have "a * c \<le> a * 1" using assms(1) by (intro mult_left_mono_neg) simp_all
  then have "a * c \<le> a" by (simp only: mult_1_right)
  then show ?thesis using False assms(2) unfolding in_int_def by linarith
qed

lemma lines_loop_defined:
  "0 < sint cs \<Longrightarrow> sint lim + sint cs < 2 ^ 31 \<Longrightarrow> \<exists>ls. lines_loop line cs lim v = Some ls"
proof (induction line cs lim v rule: lines_loop.induct)
  case (1 line cellSize limit v)
  have nz: "cellSize \<noteq> 0" using "1.prems"(1) by auto
  show ?case
  proof (cases "sint v \<le> sint limit")
    case True
    have "in_int (sint v)" by (rule in_int_sint)
    then have "in_int (sint v + sint cellSize)"
      using True "1.prems" by (simp add: in_int_def)
    then obtain v' where a: "int_add v cellSize = Some v'"
      using int_add_Some by blast
    obtain ls where "lines_loop line cellSize limit v' = Some ls"
      using "1.IH" [OF nz True a] "1.prems" by blast
    then show ?thesis
      using nz True a by (subst lines_loop.simps) simp
  next
    case False
    then show ?thesis using nz by (subst lines_loop.simps) simp
  qed
qed

lemma int_mul_Some:
  "in_int (sint a * sint b) \<Longrightarrow> \<exists>w. int_mul a b = Some w \<and> sint w = sint a * sint b"
  unfolding int_mul_def by (rule checked_Some)

lemma shape_rects_defined:
  assumes "0 < sint cs"
    and "\<forall>cell \<in> set cells. in_int ((sint (cell_x cell) + sint ox) * sint cs) \<and>
                               in_int ((sint (cell_y cell) + sint oy) * sint cs)"
  shows "\<exists>rects. shape_rects cs ox oy cells = Some rects"
  using assms(2)
proof (induction cells)
  case Nil
  then show ?case by simp
next
  case (Cons cell cells)
  have c: "1 \<le> sint cs" using assms(1) by simp
  have "in_int (sint (cell_x cell) + sint ox)"
    using in_int_factor [OF c] Cons.prems by simp
  then obtain sx where sx: "int_add (cell_x cell) ox = Some sx"
    "sint sx = sint (cell_x cell) + sint ox"
    using int_add_Some by blast
  have "in_int (sint sx * sint cs)" using sx Cons.prems by simp
  then obtain px where px: "int_mul sx cs = Some px" using int_mul_Some by blast
  have "in_int (sint (cell_y cell) + sint oy)"
    using in_int_factor [OF c] Cons.prems by simp
  then obtain sy where sy: "int_add (cell_y cell) oy = Some sy"
    "sint sy = sint (cell_y cell) + sint oy"
    using int_add_Some by blast
  have "in_int (sint sy * sint cs)" using sy Cons.prems by simp
  then obtain py where py: "int_mul sy cs = Some py" using int_mul_Some by blast
  obtain rest where "shape_rects cs ox oy cells = Some rest"
    using Cons.IH Cons.prems by auto
  then show ?case using sx px sy py by simp
qed

lemma drawable_fills: "drawable cfg \<Longrightarrow> \<exists>rects. shape_fills cfg = Some rects"
  unfolding drawable_def shape_fills_def by (intro shape_rects_defined) simp_all

lemma drawable_frame:
  assumes "drawable cfg"
  shows "\<exists>calls. draw_frame cfg t = Some calls"
proof -
  obtain vertical where "lines_loop (\<lambda>x. SDL_RenderDrawLine x 0 x (cfg_windowHeight cfg))
          (cfg_cellSize cfg) (cfg_windowWidth cfg) 0 = Some vertical"
    using lines_loop_defined assms unfolding drawable_def by blast
  moreover obtain horizontal where "lines_loop (\<lambda>y. SDL_RenderDrawLine 0 y (cfg_windowWidth cfg) y)
          (cfg_cellSize cfg) (cfg_windowHeight cfg) 0 = Some horizontal"
    using lines_loop_defined assms unfolding drawable_def by blast
  moreover obtain rects where "shape_fills cfg = Some rects"
    using drawable_fills [OF assms] by blast
  ultimately show ?thesis by (simp add: draw_frame_def shape_fills_def)
qed

lemma grid_loop_step:
  "poll_running True (tick_events t) \<Longrightarrow> draw_frame cfg t = Some calls \<Longrightarrow>
   grid_loop cfg (t # ts) = (calls @ fst (grid_loop cfg ts), snd (grid_loop cfg ts))"
  by (simp add: Let_def split: prod.splits)

lemma grid_loop_frames:
  assumes "drawable cfg"
  shows "\<exists>frames. length frames = frames_drawn ts \<and>
           (\<forall>i < length frames. draw_frame cfg (ts ! i) = Some (frames ! i)) \<and>
           fst (grid_loop cfg ts) = concat frames \<and>
           snd (grid_loop cfg ts) \<noteq> Undefined"
proof (induction ts)
  case Nil
  then show ?case by simp
next
  case (Cons t ts)
  obtain calls where d: "draw_frame cfg t = Some calls"
    using drawable_frame [OF assms] by blast
  show ?case
  proof (cases "poll_running True (tick_events t)")
    case True
    obtain frames where f: "length frames = frames_drawn ts"
      "\<forall>i < length frames. draw_frame cfg (ts ! i) = Some (frames ! i)"
      "fst (grid_loop cfg ts) = concat frames" "snd (grid_loop cfg ts) \<noteq> Undefined"
      using Cons.IH by blast
    have "\<forall>i < length (calls # frames). draw_frame cfg ((t # ts) ! i) = Some ((calls # frames) ! i)"
      using f(2) d by (auto simp: nth_Cons split: nat.splits)
    then show ?thesis
      using f True grid_loop_step [OF True d, of ts]
      by (intro exI [of _ "calls # frames"]) simp
  next
    case False
    then show ?thesis
      using d by (intro exI [of _ "[calls]"]) (simp add: Let_def)
  qed
qed

text \<open>
  C5, as the code has it. The shape is loaded from \<^verbatim>\<open>shapes.json\<close> before the loop:
  the shape the program holds when it reaches \<^verbatim>\<open>SDL_Init\<close> is the one read from the
  entry of the entered name, with that name and the cells of the entry's \<open>cells\<close>, and
  the grid dimensions and the centring offsets are those computed from the window, the
  cell size and these cells. The shape seeds no grid: the loop carries nothing from one
  frame to the next but this configuration, and whenever the frames can be drawn within
  the range of \<^verbatim>\<open>int\<close>, every frame of a run is drawn from the configuration and
  fills exactly one rectangle per cell of the shape, in the order of the list, with the
  corner at \<open>((x + offsetX) * cellSize, (y + offsetY) * cellSize)\<close> and the side
  \<open>cellSize\<close>; the SDL calls of the run are the start, these frames and the clean-up,
  and its fills are the rectangles of the shape once for each frame drawn.
\<close>

theorem shape_drawn_in_every_frame:
  "(prepare w = Inr cfg \<longrightarrow>
      (\<exists>shape_json cells_json.
          select_shape (shapes_file w) (cin_choice w) = Inr shape_json \<and>
          read_shape (cin_choice w) shape_json = Inr (cfg_shape cfg) \<and>
          json_at shape_json ''cells'' = Inr cells_json \<and>
          read_cells (json_items cells_json) = Inr (shape_cells (cfg_shape cfg))) \<and>
      shape_name (cfg_shape cfg) = cin_choice w \<and>
      int_div (cfg_windowWidth cfg) (cfg_cellSize cfg) = Some (cfg_gridWidth cfg) \<and>
      int_div (cfg_windowHeight cfg) (cfg_cellSize cfg) = Some (cfg_gridHeight cfg) \<and>
      center_shape (cfg_gridWidth cfg) (cfg_gridHeight cfg) (shape_cells (cfg_shape cfg)) =
        Some (cfg_centre cfg)) \<and>
   (prepare w = Inr cfg \<and> sdl_init_ok w \<and> window_ok w \<and> renderer_ok w \<and> drawable cfg \<longrightarrow>
      (\<exists>rects frames.
          shape_fills cfg = Some rects \<and>
          length rects = length (shape_cells (cfg_shape cfg)) \<and>
          (\<forall>i < length (shape_cells (cfg_shape cfg)). \<exists>r.
             rects ! i = SDL_RenderFillRect r \<and>
             sint (rect_x r) =
               (sint (cell_x (shape_cells (cfg_shape cfg) ! i))
                + sint (offsetX (cfg_centre cfg))) * sint (cfg_cellSize cfg) \<and>
             sint (rect_y r) =
               (sint (cell_y (shape_cells (cfg_shape cfg) ! i))
                + sint (offsetY (cfg_centre cfg))) * sint (cfg_cellSize cfg) \<and>
             rect_w r = cfg_cellSize cfg \<and> rect_h r = cfg_cellSize cfg) \<and>
          length frames = frames_drawn (ticks w) \<and>
          (\<forall>i < length frames.
             draw_frame cfg (ticks w ! i) = Some (frames ! i) \<and>
             filter is_fill (frames ! i) = rects) \<and>
          sdl (grid_example_main w) =
            [SDL_Init, SDL_CreateWindow (cfg_windowWidth cfg) (cfg_windowHeight cfg),
             SDL_CreateRenderer]
            @ concat frames
            @ (if exit_status (grid_example_main w) = Returned 0
               then [SDL_DestroyRenderer, SDL_DestroyWindow, SDL_Quit] else []) \<and>
          exit_status (grid_example_main w) \<noteq> Undefined \<and>
          filter is_fill (sdl (grid_example_main w)) =
            concat (replicate (frames_drawn (ticks w)) rects))) \<and>
   (poll_running True (tick_events t) \<and> draw_frame cfg t = Some calls \<longrightarrow>
      grid_loop cfg (t # ts) = (calls @ fst (grid_loop cfg ts), snd (grid_loop cfg ts)))"
proof (intro conjI impI)
  assume p: "prepare w = Inr cfg"
  obtain shape_json where s: "select_shape (shapes_file w) (cin_choice w) = Inr shape_json"
    and r: "read_shape (cin_choice w) shape_json = Inr (cfg_shape cfg)"
    and c: "configure (args w) (cfg_shape cfg) = Inr cfg"
    using prepare_Inr_shape [OF p] by blast
  show "\<exists>shape_json cells_json.
          select_shape (shapes_file w) (cin_choice w) = Inr shape_json \<and>
          read_shape (cin_choice w) shape_json = Inr (cfg_shape cfg) \<and>
          json_at shape_json ''cells'' = Inr cells_json \<and>
          read_cells (json_items cells_json) = Inr (shape_cells (cfg_shape cfg))"
    using s r read_shape_Inr [OF r] by blast
  show "shape_name (cfg_shape cfg) = cin_choice w"
    using read_shape_Inr [OF r] by blast
  show "int_div (cfg_windowWidth cfg) (cfg_cellSize cfg) = Some (cfg_gridWidth cfg)"
    by (rule configure_Inr(5) [OF c])
  show "int_div (cfg_windowHeight cfg) (cfg_cellSize cfg) = Some (cfg_gridHeight cfg)"
    by (rule configure_Inr(6) [OF c])
  show "center_shape (cfg_gridWidth cfg) (cfg_gridHeight cfg) (shape_cells (cfg_shape cfg)) =
        Some (cfg_centre cfg)"
    by (rule configure_Inr(7) [OF c])
next
  assume a: "prepare w = Inr cfg \<and> sdl_init_ok w \<and> window_ok w \<and> renderer_ok w \<and> drawable cfg"
  then have d: "drawable cfg" by blast
  obtain rects where f: "shape_fills cfg = Some rects"
    using drawable_fills [OF d] by blast
  obtain frames where n: "length frames = frames_drawn (ticks w)"
    and e: "\<forall>i < length frames. draw_frame cfg (ticks w ! i) = Some (frames ! i)"
    and g: "fst (grid_loop cfg (ticks w)) = concat frames"
    and u: "snd (grid_loop cfg (ticks w)) \<noteq> Undefined"
    using grid_loop_frames [OF d, of "ticks w"] by blast
  have m: "sdl (grid_example_main w) =
           [SDL_Init, SDL_CreateWindow (cfg_windowWidth cfg) (cfg_windowHeight cfg),
            SDL_CreateRenderer]
           @ fst (grid_loop cfg (ticks w))
           @ (if snd (grid_loop cfg (ticks w)) = Returned 0
              then [SDL_DestroyRenderer, SDL_DestroyWindow, SDL_Quit] else [])"
    and x: "exit_status (grid_example_main w) = snd (grid_loop cfg (ticks w))"
    using main_runs_loop [of w cfg] a by blast+
  have c: "length rects = length (shape_cells (cfg_shape cfg))"
    "\<forall>i < length (shape_cells (cfg_shape cfg)). \<exists>r.
             rects ! i = SDL_RenderFillRect r \<and>
             sint (rect_x r) =
               (sint (cell_x (shape_cells (cfg_shape cfg) ! i))
                + sint (offsetX (cfg_centre cfg))) * sint (cfg_cellSize cfg) \<and>
             sint (rect_y r) =
               (sint (cell_y (shape_cells (cfg_shape cfg) ! i))
                + sint (offsetY (cfg_centre cfg))) * sint (cfg_cellSize cfg) \<and>
             rect_w r = cfg_cellSize cfg \<and> rect_h r = cfg_cellSize cfg"
    using shape_rects_cells f unfolding shape_fills_def by blast+
  have e': "\<forall>i < length frames.
             draw_frame cfg (ticks w ! i) = Some (frames ! i) \<and>
             filter is_fill (frames ! i) = rects"
    using e draw_frame_fills f by fastforce
  have l: "filter is_fill (fst (grid_loop cfg (ticks w))) =
           concat (replicate (frames_drawn (ticks w)) rects)"
    using grid_loop_fills [OF u f] .
  have t: "filter is_fill (sdl (grid_example_main w)) =
            concat (replicate (frames_drawn (ticks w)) rects)"
    unfolding m using l by simp
  show "\<exists>rects frames.
          shape_fills cfg = Some rects \<and>
          length rects = length (shape_cells (cfg_shape cfg)) \<and>
          (\<forall>i < length (shape_cells (cfg_shape cfg)). \<exists>r.
             rects ! i = SDL_RenderFillRect r \<and>
             sint (rect_x r) =
               (sint (cell_x (shape_cells (cfg_shape cfg) ! i))
                + sint (offsetX (cfg_centre cfg))) * sint (cfg_cellSize cfg) \<and>
             sint (rect_y r) =
               (sint (cell_y (shape_cells (cfg_shape cfg) ! i))
                + sint (offsetY (cfg_centre cfg))) * sint (cfg_cellSize cfg) \<and>
             rect_w r = cfg_cellSize cfg \<and> rect_h r = cfg_cellSize cfg) \<and>
          length frames = frames_drawn (ticks w) \<and>
          (\<forall>i < length frames.
             draw_frame cfg (ticks w ! i) = Some (frames ! i) \<and>
             filter is_fill (frames ! i) = rects) \<and>
          sdl (grid_example_main w) =
            [SDL_Init, SDL_CreateWindow (cfg_windowWidth cfg) (cfg_windowHeight cfg),
             SDL_CreateRenderer]
            @ concat frames
            @ (if exit_status (grid_example_main w) = Returned 0
               then [SDL_DestroyRenderer, SDL_DestroyWindow, SDL_Quit] else []) \<and>
          exit_status (grid_example_main w) \<noteq> Undefined \<and>
          filter is_fill (sdl (grid_example_main w)) =
            concat (replicate (frames_drawn (ticks w)) rects)"
    using f c n e' m [unfolded g, folded x] u [folded x] t
    by (intro exI [of _ rects] exI [of _ frames] conjI)
next
  assume "poll_running True (tick_events t) \<and> draw_frame cfg t = Some calls"
  then show "grid_loop cfg (t # ts) = (calls @ fst (grid_loop cfg ts), snd (grid_loop cfg ts))"
    using grid_loop_step by blast
qed

theorem shape_drawn_in_every_frame_witness:
  "prepare (two_frames ''block'') = Inr block_config \<and>
   sdl_init_ok (two_frames ''block'') \<and> window_ok (two_frames ''block'') \<and>
   renderer_ok (two_frames ''block'') \<and> drawable block_config \<and>
   shape_fills block_config =
     Some [SDL_RenderFillRect \<lparr>rect_x = 0, rect_y = 0, rect_w = 20, rect_h = 20\<rparr>,
           SDL_RenderFillRect \<lparr>rect_x = 20, rect_y = 0, rect_w = 20, rect_h = 20\<rparr>] \<and>
   frames_drawn (ticks (two_frames ''block'')) = 2 \<and>
   exit_status (grid_example_main (two_frames ''block'')) = Returned 0 \<and>
   filter is_fill (sdl (grid_example_main (two_frames ''block''))) =
     [SDL_RenderFillRect \<lparr>rect_x = 0, rect_y = 0, rect_w = 20, rect_h = 20\<rparr>,
      SDL_RenderFillRect \<lparr>rect_x = 20, rect_y = 0, rect_w = 20, rect_h = 20\<rparr>,
      SDL_RenderFillRect \<lparr>rect_x = 0, rect_y = 0, rect_w = 20, rect_h = 20\<rparr>,
      SDL_RenderFillRect \<lparr>rect_x = 20, rect_y = 0, rect_w = 20, rect_h = 20\<rparr>] \<and>
   shape_name (cfg_shape block_config) = cin_choice (two_frames ''block'') \<and>
   center_shape (cfg_gridWidth block_config) (cfg_gridHeight block_config)
     (shape_cells (cfg_shape block_config)) = Some (cfg_centre block_config) \<and>
   poll_running True (tick_events \<lparr>tick_events = [], rand_r = 7, rand_g = 8, rand_b = 9\<rparr>) \<and>
   draw_frame block_config \<lparr>tick_events = [], rand_r = 7, rand_g = 8, rand_b = 9\<rparr> =
     Some [SDL_SetRenderDrawColor 30 30 40 255, SDL_RenderClear,
           SDL_SetRenderDrawColor 80 80 100 255,
           SDL_RenderDrawLine 0 0 0 40, SDL_RenderDrawLine 20 0 20 40,
           SDL_RenderDrawLine 40 0 40 40, SDL_RenderDrawLine 0 0 40 0,
           SDL_RenderDrawLine 0 20 40 20, SDL_RenderDrawLine 0 40 40 40,
           SDL_SetRenderDrawColor 7 8 9 255,
           SDL_RenderFillRect \<lparr>rect_x = 0, rect_y = 0, rect_w = 20, rect_h = 20\<rparr>,
           SDL_RenderFillRect \<lparr>rect_x = 20, rect_y = 0, rect_w = 20, rect_h = 20\<rparr>,
           SDL_RenderPresent, SDL_Delay 16] \<and>
   grid_loop block_config (ticks (two_frames ''block'')) =
     ([SDL_SetRenderDrawColor 30 30 40 255, SDL_RenderClear,
       SDL_SetRenderDrawColor 80 80 100 255,
       SDL_RenderDrawLine 0 0 0 40, SDL_RenderDrawLine 20 0 20 40,
       SDL_RenderDrawLine 40 0 40 40, SDL_RenderDrawLine 0 0 40 0,
       SDL_RenderDrawLine 0 20 40 20, SDL_RenderDrawLine 0 40 40 40,
       SDL_SetRenderDrawColor 7 8 9 255,
       SDL_RenderFillRect \<lparr>rect_x = 0, rect_y = 0, rect_w = 20, rect_h = 20\<rparr>,
       SDL_RenderFillRect \<lparr>rect_x = 20, rect_y = 0, rect_w = 20, rect_h = 20\<rparr>,
       SDL_RenderPresent, SDL_Delay 16]
      @ fst (grid_loop block_config (tl (ticks (two_frames ''block'')))),
      snd (grid_loop block_config (tl (ticks (two_frames ''block'')))))"
proof -
  have p: "prepare (two_frames ''block'') = Inr block_config"
    by code_simp
  have r: "poll_running True (tick_events \<lparr>tick_events = [], rand_r = 7, rand_g = 8, rand_b = 9\<rparr>)"
    by simp
  have q: "draw_frame block_config \<lparr>tick_events = [], rand_r = 7, rand_g = 8, rand_b = 9\<rparr> =
     Some [SDL_SetRenderDrawColor 30 30 40 255, SDL_RenderClear,
           SDL_SetRenderDrawColor 80 80 100 255,
           SDL_RenderDrawLine 0 0 0 40, SDL_RenderDrawLine 20 0 20 40,
           SDL_RenderDrawLine 40 0 40 40, SDL_RenderDrawLine 0 0 40 0,
           SDL_RenderDrawLine 0 20 40 20, SDL_RenderDrawLine 0 40 40 40,
           SDL_SetRenderDrawColor 7 8 9 255,
           SDL_RenderFillRect \<lparr>rect_x = 0, rect_y = 0, rect_w = 20, rect_h = 20\<rparr>,
           SDL_RenderFillRect \<lparr>rect_x = 20, rect_y = 0, rect_w = 20, rect_h = 20\<rparr>,
           SDL_RenderPresent, SDL_Delay 16]"
    by code_simp
  have k: "ticks (two_frames ''block'') =
     \<lparr>tick_events = [], rand_r = 7, rand_g = 8, rand_b = 9\<rparr>
     # tl (ticks (two_frames ''block''))"
    by (simp add: two_frames_def)
  note first = shape_drawn_in_every_frame [of "two_frames ''block''" block_config,
      THEN conjunct1, rule_format, OF p]
  note third = shape_drawn_in_every_frame [of _ block_config
      "\<lparr>tick_events = [], rand_r = 7, rand_g = 8, rand_b = 9\<rparr>" _
      "tl (ticks (two_frames ''block''))",
      THEN conjunct2, THEN conjunct2, rule_format, OF conjI [OF r q]]
  have g: "grid_loop block_config (ticks (two_frames ''block'')) =
     ([SDL_SetRenderDrawColor 30 30 40 255, SDL_RenderClear,
       SDL_SetRenderDrawColor 80 80 100 255,
       SDL_RenderDrawLine 0 0 0 40, SDL_RenderDrawLine 20 0 20 40,
       SDL_RenderDrawLine 40 0 40 40, SDL_RenderDrawLine 0 0 40 0,
       SDL_RenderDrawLine 0 20 40 20, SDL_RenderDrawLine 0 40 40 40,
       SDL_SetRenderDrawColor 7 8 9 255,
       SDL_RenderFillRect \<lparr>rect_x = 0, rect_y = 0, rect_w = 20, rect_h = 20\<rparr>,
       SDL_RenderFillRect \<lparr>rect_x = 20, rect_y = 0, rect_w = 20, rect_h = 20\<rparr>,
       SDL_RenderPresent, SDL_Delay 16]
      @ fst (grid_loop block_config (tl (ticks (two_frames ''block'')))),
      snd (grid_loop block_config (tl (ticks (two_frames ''block'')))))"
    by (subst k) (rule third)
  have o: "sdl_init_ok (two_frames ''block'')" "window_ok (two_frames ''block'')"
    "renderer_ok (two_frames ''block'')"
    by (simp_all add: two_frames_def)
  have d: "drawable block_config"
    by code_simp
  have f: "shape_fills block_config =
     Some [SDL_RenderFillRect \<lparr>rect_x = 0, rect_y = 0, rect_w = 20, rect_h = 20\<rparr>,
           SDL_RenderFillRect \<lparr>rect_x = 20, rect_y = 0, rect_w = 20, rect_h = 20\<rparr>]"
    by code_simp
  have n: "frames_drawn (ticks (two_frames ''block'')) = 2"
    by code_simp
  have s: "exit_status (grid_example_main (two_frames ''block'')) = Returned 0"
    by code_simp
  from shape_drawn_in_every_frame [of "two_frames ''block''" block_config,
      THEN conjunct2, THEN conjunct1, rule_format,
      OF conjI [OF p conjI [OF o(1) conjI [OF o(2) conjI [OF o(3) d]]]]]
  obtain rects where "shape_fills block_config = Some rects"
    and "filter is_fill (sdl (grid_example_main (two_frames ''block''))) =
           concat (replicate (frames_drawn (ticks (two_frames ''block''))) rects)"
    by blast
  then have "filter is_fill (sdl (grid_example_main (two_frames ''block''))) =
     [SDL_RenderFillRect \<lparr>rect_x = 0, rect_y = 0, rect_w = 20, rect_h = 20\<rparr>,
      SDL_RenderFillRect \<lparr>rect_x = 20, rect_y = 0, rect_w = 20, rect_h = 20\<rparr>,
      SDL_RenderFillRect \<lparr>rect_x = 0, rect_y = 0, rect_w = 20, rect_h = 20\<rparr>,
      SDL_RenderFillRect \<lparr>rect_x = 20, rect_y = 0, rect_w = 20, rect_h = 20\<rparr>]"
    using f n by (simp add: numeral_2_eq_2)
  then show ?thesis using p o d f n s first r q g by blast
qed

text \<open>
  The claim as it is stated has the shape used only to seed a grid, with no effect once
  that is done. The program has no grid to take the cells over: when \<open>block\<close> has been
  chosen and the first frame has been drawn, the configuration computed before the loop is
  all the loop goes on with, and replacing only the shape in it by \<open>dot_shape\<close>, every
  offset and dimension left as computed, changes what the loop draws from the second
  frame on: the two rectangles of the block become the one rectangle of the dot.
\<close>

theorem shape_unused_in_loop_counterexample:
  "prepare (two_frames ''block'') = Inr block_config \<and>
   \<not> shape_unused_in_loop block_config (tl (ticks (two_frames ''block''))) dot_shape \<and>
   filter is_fill (fst (grid_loop block_config (tl (ticks (two_frames ''block''))))) =
     [SDL_RenderFillRect \<lparr>rect_x = 0, rect_y = 0, rect_w = 20, rect_h = 20\<rparr>,
      SDL_RenderFillRect \<lparr>rect_x = 20, rect_y = 0, rect_w = 20, rect_h = 20\<rparr>] \<and>
   filter is_fill (fst (grid_loop (block_config\<lparr>cfg_shape := dot_shape\<rparr>)
                          (tl (ticks (two_frames ''block''))))) =
     [SDL_RenderFillRect \<lparr>rect_x = 0, rect_y = 0, rect_w = 20, rect_h = 20\<rparr>]"
proof -
  have p: "prepare (two_frames ''block'') = Inr block_config"
    by code_simp
  have a: "filter is_fill (fst (grid_loop block_config (tl (ticks (two_frames ''block''))))) =
     [SDL_RenderFillRect \<lparr>rect_x = 0, rect_y = 0, rect_w = 20, rect_h = 20\<rparr>,
      SDL_RenderFillRect \<lparr>rect_x = 20, rect_y = 0, rect_w = 20, rect_h = 20\<rparr>]"
    by code_simp
  have b: "filter is_fill (fst (grid_loop (block_config\<lparr>cfg_shape := dot_shape\<rparr>)
                          (tl (ticks (two_frames ''block''))))) =
     [SDL_RenderFillRect \<lparr>rect_x = 0, rect_y = 0, rect_w = 20, rect_h = 20\<rparr>]"
    by code_simp
  have "\<not> shape_unused_in_loop block_config (tl (ticks (two_frames ''block''))) dot_shape"
  proof
    assume "shape_unused_in_loop block_config (tl (ticks (two_frames ''block''))) dot_shape"
    then have "filter is_fill (fst (grid_loop (block_config\<lparr>cfg_shape := dot_shape\<rparr>)
                 (tl (ticks (two_frames ''block''))))) =
               filter is_fill (fst (grid_loop block_config (tl (ticks (two_frames ''block'')))))"
      by (simp only: shape_unused_in_loop_def)
    then show False by (simp only: a b) simp
  qed
  then show ?thesis using p a b by blast
qed

end
